(* ===== verification/Prelude.thy ===== *)
theory Prelude
  imports Main "HOL-Library.Sublist"
begin

text \<open>
  The shared base of the development: the types that every component uses
  (byte strings, results with an error value), the signed 64-bit integers of Go,
  and the generic lemmas on lists and options that carry the component proofs.
  Nothing here models a file of the repository; the Go standard library is in
  theory \<open>Golib\<close>.
\<close>

section \<open>Collections of the development\<close>

named_theorems frame_simps \<open>fields an operation leaves alone\<close>
named_theorems go_defs \<open>definitions that evaluate on concrete inputs\<close>

section \<open>Types\<close>

text \<open>A Go string or byte slice is a list of 8-bit characters.\<close>

type_synonym bytes = string

abbreviation CR :: char where "CR \<equiv> CHR 0x0D"
abbreviation LF :: char where "LF \<equiv> CHR 0x0A"
abbreviation CRLF :: bytes where "CRLF \<equiv> [CR, LF]"

section \<open>Go's int64\<close>

text \<open>
  \<open>int64 x\<close> is the value a signed 64-bit variable holds after \<open>x\<close> is stored into
  it: two's complement wrap-around, written out.
\<close>

definition int64 :: "int \<Rightarrow> int" where
  "int64 x = (x + 2 ^ 63) mod 2 ^ 64 - 2 ^ 63"

definition in_int64 :: "int \<Rightarrow> bool" where
  "in_int64 x \<longleftrightarrow> - (2 ^ 63) \<le> x \<and> x < 2 ^ 63"

lemma int64_id [simp]: "in_int64 x \<Longrightarrow> int64 x = x"
  by (simp add: int64_def in_int64_def)

lemma in_int64_int64 [simp]: "in_int64 (int64 x)"
proof -
  have "0 \<le> (x + 2 ^ 63) mod 2 ^ 64" "(x + 2 ^ 63) mod 2 ^ 64 < 2 ^ 64"
    by simp_all
  then show ?thesis by (simp add: int64_def in_int64_def)
qed

section \<open>Results\<close>

text \<open>
  A fallible Go function returns \<open>Inl\<close> its error or \<open>Inr\<close> its value; \<open>bindR\<close> is the
  early return \<open>if err != nil { return err }\<close>.
\<close>

definition bindR :: "'e + 'a \<Rightarrow> ('a \<Rightarrow> 'e + 'b) \<Rightarrow> 'e + 'b" where
  "bindR r f = (case r of Inl e \<Rightarrow> Inl e | Inr x \<Rightarrow> f x)"

lemma bindR_simps [simp]: "bindR (Inl e) f = Inl e" "bindR (Inr x) f = f x"
  by (simp_all add: bindR_def)

lemma bindR_Inr_iff: "bindR r f = Inr y \<longleftrightarrow> (\<exists>x. r = Inr x \<and> f x = Inr y)"
  by (cases r) simp_all

lemma bindR_Inl_iff: "bindR r f = Inl e \<longleftrightarrow> r = Inl e \<or> (\<exists>x. r = Inr x \<and> f x = Inl e)"
  by (cases r) simp_all

section \<open>Lists\<close>

lemma takeWhile_neq_append [simp]:
  "d \<notin> set xs \<Longrightarrow> takeWhile (\<lambda>c. c \<noteq> d) (xs @ d # ys) = xs"
  by (induction xs) auto

lemma takeWhile_neq_all: "d \<notin> set xs \<Longrightarrow> takeWhile (\<lambda>c. c \<noteq> d) xs = xs"
  by (induction xs) auto

lemma split_at_first:
  assumes "d \<in> set xs"
  obtains pre post where "xs = pre @ d # post" "d \<notin> set pre"
  using split_list_first [OF assms] by blast

lemma length_takeWhile_less_iff:
  "length (takeWhile (\<lambda>c. c \<noteq> d) xs) < length xs \<longleftrightarrow> d \<in> set xs"
  by (induction xs) auto

text \<open>A prefix stays a prefix when something is put before both sides.\<close>

lemma prefix_appendI2: "prefix xs ys \<Longrightarrow> prefix (zs @ xs) (zs @ ys)"
  by simp

lemma prefix_concat_Cons:
  "prefix xs (concat yss) \<Longrightarrow> prefix (ys @ xs) (concat (ys # yss))"
  by simp

end
