(* ===== verification/Golib.thy ===== *)
theory Golib
  imports Prelude "HOL-Library.List_Lexorder" "HOL-Library.Char_ord"
begin

text \<open>
  The parts of the Go standard library the sources call, as they behave:
  packages \<open>strings\<close>, \<open>strconv\<close> and \<open>net\<close> (address syntax), a buffered reader
  over a byte stream (\<open>bufio.Reader\<close>) and the write side of a connection
  (\<open>net.Conn\<close>, \<open>io.Writer\<close>) with \<open>io.ReadFull\<close>, \<open>io.CopyN\<close> and \<open>io.Copy\<close>.

  A stream is the list of the bytes the peer will deliver, together with the error
  a read reports after the last one (\<open>io.EOF\<close> for an orderly close, a timeout or
  another error otherwise). A connection accepts a number of bytes (its budget, unlimited
  when \<open>None\<close>) and then fails, so every write of the sources has a failing branch.
\<close>

section \<open>Package strings\<close>

definition is_ascii :: "char \<Rightarrow> bool" where
  "is_ascii c \<longleftrightarrow> (of_char c :: nat) < 128"

definition upper_char :: "char \<Rightarrow> char" where
  "upper_char c =
     (if 97 \<le> (of_char c :: nat) \<and> (of_char c :: nat) \<le> 122
      then char_of ((of_char c :: nat) - 32) else c)"

text \<open>
  \<open>strings.ToUpper\<close>. On an ASCII string it maps the letters; a string with other bytes
  goes through \<open>strings.Map(unicode.ToUpper, s)\<close>, whose Unicode table is the parameter
  \<open>uni\<close>.
\<close>

definition ToUpper :: "(string \<Rightarrow> string) \<Rightarrow> string \<Rightarrow> string" where
  "ToUpper uni s = (if list_all is_ascii s then map upper_char s else uni s)"

definition HasPrefix :: "string \<Rightarrow> string \<Rightarrow> bool" where
  "HasPrefix s p \<longleftrightarrow> take (length p) s = p"

fun Contains :: "string \<Rightarrow> string \<Rightarrow> bool" where
  "Contains [] p \<longleftrightarrow> p = []"
| "Contains (c # s) p \<longleftrightarrow> HasPrefix (c # s) p \<or> Contains s p"

definition TrimSuffix :: "string \<Rightarrow> string \<Rightarrow> string" where
  "TrimSuffix s x =
     (if length x \<le> length s \<and> drop (length s - length x) s = x
      then take (length s - length x) s else s)"

section \<open>Package strconv\<close>

datatype num_error = ErrSyntax | ErrRange

definition is_digit :: "char \<Rightarrow> bool" where
  "is_digit c \<longleftrightarrow> 48 \<le> (of_char c :: nat) \<and> (of_char c :: nat) \<le> 57"

definition digit_val :: "char \<Rightarrow> nat" where
  "digit_val c = of_char c - 48"

definition digit_char :: "nat \<Rightarrow> char" where
  "digit_char n = char_of (48 + n)"

definition maxUint64 :: nat where "maxUint64 = 2 ^ 64 - 1"

text \<open>The digit loop of \<open>strconv.ParseUint(s, 10, 64)\<close>, overflow tests included.\<close>

fun parseUint_loop :: "nat \<Rightarrow> string \<Rightarrow> num_error + nat" where
  "parseUint_loop n [] = Inr n"
| "parseUint_loop n (c # cs) =
     (if \<not> is_digit c then Inl ErrSyntax
      else if maxUint64 div 10 + 1 \<le> n then Inl ErrRange
      else if maxUint64 < n * 10 + digit_val c then Inl ErrRange
      else parseUint_loop (n * 10 + digit_val c) cs)"

definition parseUint :: "string \<Rightarrow> num_error + nat" where
  "parseUint s = (if s = [] then Inl ErrSyntax else parseUint_loop 0 s)"

text \<open>\<open>strconv.ParseInt(s, 10, 64)\<close>: an optional sign, then the digits.\<close>

definition ParseInt :: "string \<Rightarrow> num_error + int" where
  "ParseInt s =
     (case s of
        [] \<Rightarrow> Inl ErrSyntax
      | c # cs \<Rightarrow>
          let neg = (c = CHR ''-'');
              ds = (if c = CHR ''+'' \<or> c = CHR ''-'' then cs else s)
          in case parseUint ds of
               Inl e \<Rightarrow> Inl e
             | Inr un \<Rightarrow>
                 if \<not> neg \<and> 2 ^ 63 \<le> un then Inl ErrRange
                 else if neg \<and> 2 ^ 63 < un then Inl ErrRange
                 else Inr (if neg then - int un else int un))"

text \<open>\<open>strconv.Atoi\<close> on a 64-bit platform.\<close>

definition Atoi :: "string \<Rightarrow> num_error + int" where
  "Atoi s = ParseInt s"

definition ParseBool :: "string \<Rightarrow> num_error + bool" where
  "ParseBool s =
     (if s \<in> set [''1'', ''t'', ''T'', ''TRUE'', ''true'', ''True''] then Inr True
      else if s \<in> set [''0'', ''f'', ''F'', ''FALSE'', ''false'', ''False''] then Inr False
      else Inl ErrSyntax)"

text \<open>\<open>strconv.Itoa\<close> on a natural number.\<close>

fun itoa :: "nat \<Rightarrow> string" where
  "itoa n = (if n < 10 then [digit_char n] else itoa (n div 10) @ [digit_char (n mod 10)])"

declare itoa.simps [simp del]

section \<open>Streams and connections\<close>

datatype io_error = EOF | UnexpectedEOF | ErrClosed | DeadlineExceeded | OtherIO string

record reader =
  avail :: bytes     \<comment> \<open>bytes still to be delivered\<close>
  rerr :: io_error   \<comment> \<open>what a read reports after them\<close>

record conn =
  written :: bytes          \<comment> \<open>bytes accepted so far\<close>
  budget :: "nat option"    \<comment> \<open>bytes accepted before writes fail; \<open>None\<close>: no limit\<close>
  werr :: io_error          \<comment> \<open>the error of a failing write\<close>
  half_closed :: bool       \<comment> \<open>\<open>CloseWrite\<close> was called\<close>
  conn_closed :: bool       \<comment> \<open>\<open>Close\<close> was called\<close>

definition new_conn :: conn where
  "new_conn = \<lparr>written = [], budget = None, werr = ErrClosed,
     half_closed = False, conn_closed = False\<rparr>"

text \<open>The destination \<open>io.Discard\<close> never fails.\<close>

abbreviation io_Discard :: conn where "io_Discard \<equiv> new_conn"

datatype slice_status = SliceOk | BufferFull | SliceErr io_error

definition bufSize :: nat where "bufSize = 4096"

text \<open>
  \<open>bufio.Reader.ReadSlice(d)\<close>: up to and including the first \<open>d\<close> within the buffer; a
  full buffer without it is \<open>ErrBufferFull\<close>, a stream that ends before is its error.
\<close>

definition ReadSlice :: "char \<Rightarrow> reader \<Rightarrow> bytes \<times> slice_status \<times> reader" where
  "ReadSlice d r =
     (let buf = take bufSize (avail r);
          pre = takeWhile (\<lambda>c. c \<noteq> d) buf;
          rest = (\<lambda>n. r\<lparr>avail := drop n (avail r)\<rparr>)
      in if length pre < length buf then (take (Suc (length pre)) buf, SliceOk, rest (Suc (length pre)))
         else if length buf = bufSize then (buf, BufferFull, rest bufSize)
         else (buf, SliceErr (rerr r), rest (length buf)))"

text \<open>\<open>bufio.Reader.Peek(1)\<close>.\<close>

definition Peek1 :: "reader \<Rightarrow> io_error + char" where
  "Peek1 r = (case avail r of [] \<Rightarrow> Inl (rerr r) | c # _ \<Rightarrow> Inr c)"

text \<open>
  \<open>io.ReadFull(r, buf)\<close> with a buffer of \<open>n\<close> bytes: an end of stream after some but
  not all bytes is \<open>io.ErrUnexpectedEOF\<close>.
\<close>

definition ReadFull :: "nat \<Rightarrow> reader \<Rightarrow> (io_error + bytes) \<times> reader" where
  "ReadFull n r =
     (if n \<le> length (avail r)
      then (Inr (take n (avail r)), r\<lparr>avail := drop n (avail r)\<rparr>)
      else (Inl (if rerr r = EOF \<and> avail r \<noteq> [] then UnexpectedEOF else rerr r),
            r\<lparr>avail := []\<rparr>))"

definition conn_write :: "bytes \<Rightarrow> conn \<Rightarrow> io_error option \<times> conn" where
  "conn_write b w =
     (case budget w of
        None \<Rightarrow> (None, w\<lparr>written := written w @ b\<rparr>)
      | Some n \<Rightarrow>
          if length b \<le> n
          then (None, w\<lparr>written := written w @ b, budget := Some (n - length b)\<rparr>)
          else (Some (werr w), w\<lparr>written := written w @ take n b, budget := Some 0\<rparr>))"

text \<open>
  \<open>io.CopyN(w, r, n)\<close>: what is there of the next \<open>n\<close> bytes is written; a failing write
  comes first, then a stream that ends early.
\<close>

definition CopyN :: "conn \<Rightarrow> reader \<Rightarrow> nat \<Rightarrow> io_error option \<times> conn \<times> reader" where
  "CopyN w r n =
     (let part = take n (avail r);
          r' = r\<lparr>avail := drop n (avail r)\<rparr>
      in case conn_write part w of
           (Some e, w') \<Rightarrow> (Some e, w', r')
         | (None, w') \<Rightarrow> (if length part < n then Some (rerr r) else None, w', r'))"

text \<open>\<open>io.Copy(w, r)\<close>: everything up to the end of the stream; \<open>io.EOF\<close> is no error.\<close>

definition Copy :: "conn \<Rightarrow> reader \<Rightarrow> io_error option \<times> conn \<times> reader" where
  "Copy w r =
     (case conn_write (avail r) w of
        (Some e, w') \<Rightarrow> (Some e, w', r\<lparr>avail := []\<rparr>)
      | (None, w') \<Rightarrow> (if rerr r = EOF then None else Some (rerr r), w', r\<lparr>avail := []\<rparr>))"

definition CloseWrite :: "conn \<Rightarrow> conn" where
  "CloseWrite w = w\<lparr>half_closed := True\<rparr>"

definition Close :: "conn \<Rightarrow> conn" where
  "Close w = w\<lparr>conn_closed := True\<rparr>"

section \<open>Facts\<close>

lemma digit_char_is_digit [simp]: "n < 10 \<Longrightarrow> is_digit (digit_char n)"
  by (simp add: is_digit_def digit_char_def)

lemma digit_val_char [simp]: "n < 10 \<Longrightarrow> digit_val (digit_char n) = n"
  by (simp add: digit_val_def digit_char_def)

lemma itoa_nonempty [simp]: "itoa n \<noteq> []"
  by (subst itoa.simps) simp

lemma itoa_digits: "c \<in> set (itoa n) \<Longrightarrow> is_digit c"
proof (induction n rule: itoa.induct)
  case (1 n)
  then show ?case
    by (cases "n < 10") (auto simp: itoa.simps [of n])
qed

lemma is_digit_simps [simp]:
  "\<not> is_digit CR" "\<not> is_digit LF" "\<not> is_digit (CHR ''-'')" "\<not> is_digit (CHR ''+'')"
  by (simp_all add: is_digit_def)

lemma length_itoa_le: "n < 10 ^ k \<Longrightarrow> 0 < k \<Longrightarrow> length (itoa n) \<le> k"
proof (induction n arbitrary: k rule: itoa.induct)
  case (1 n)
  show ?case
  proof (cases "n < 10")
    case True
    then show ?thesis using "1.prems"(2) by (simp add: itoa.simps [of n])
  next
    case False
    with "1.prems" obtain j where k: "k = Suc j" "0 < j"
      by (cases k; cases "k - 1") auto
    have "n div 10 < 10 ^ j"
      using "1.prems"(1) k by (simp add: less_mult_imp_div_less mult.commute)
    with False "1.IH" [of j] k show ?thesis by (simp add: itoa.simps [of n])
  qed
qed

lemma parseUint_loop_append:
  "parseUint_loop n (xs @ ys) =
     (case parseUint_loop n xs of Inl e \<Rightarrow> Inl e | Inr m \<Rightarrow> parseUint_loop m ys)"
  by (induction xs arbitrary: n) auto

lemma parseUint_loop_itoa: "n \<le> maxUint64 \<Longrightarrow> parseUint_loop 0 (itoa n) = Inr n"
proof (induction n rule: itoa.induct)
  case (1 n)
  show ?case
  proof (cases "n < 10")
    case True
    then show ?thesis using "1.prems" by (simp add: itoa.simps [of n])
  next
    case False
    have "n div 10 \<le> maxUint64" "n div 10 \<le> maxUint64 div 10"
      using "1.prems" by (auto intro: div_le_mono)
    with False "1" show ?thesis
      by (simp add: itoa.simps [of n] parseUint_loop_append)
  qed
qed

lemma parseUint_itoa: "n \<le> maxUint64 \<Longrightarrow> parseUint (itoa n) = Inr n"
  by (simp add: parseUint_def parseUint_loop_itoa)

text \<open>Printing a length and parsing it back gives the length.\<close>

lemma ParseInt_itoa: "n < 2 ^ 63 \<Longrightarrow> ParseInt (itoa n) = Inr (int n)"
proof -
  assume n: "n < 2 ^ 63"
  obtain c cs where s: "itoa n = c # cs" by (cases "itoa n") simp_all
  have "is_digit c" using itoa_digits [of c n] s by simp
  then have "c \<noteq> CHR ''-''" "c \<noteq> CHR ''+''" by auto
  moreover have "parseUint (c # cs) = Inr n"
    using parseUint_itoa [of n] n s by (simp add: maxUint64_def)
  ultimately show ?thesis using n s by (simp add: ParseInt_def Let_def)
qed

lemma parseUint_loop_bound: "parseUint_loop n s = Inr m \<Longrightarrow> n \<le> maxUint64 \<Longrightarrow> m \<le> maxUint64"
  by (induction n s rule: parseUint_loop.induct) (auto split: if_splits)

lemma ParseInt_in_int64: "ParseInt s = Inr n \<Longrightarrow> in_int64 n"
  by (auto simp: ParseInt_def in_int64_def Let_def split: list.splits sum.splits if_splits)

lemma conn_write_None [simp]: "budget w = None \<Longrightarrow> conn_write b w = (None, w\<lparr>written := written w @ b\<rparr>)"
  by (simp add: conn_write_def)

text \<open>A write appends a prefix of its argument, all of it when it succeeds.\<close>

lemma conn_write_appends:
  "conn_write b w = (e, w') \<Longrightarrow>
     \<exists>p. prefix p b \<and> written w' = written w @ p \<and> (e = None \<longrightarrow> p = b)"
  by (auto simp: conn_write_def take_is_prefix split: option.splits if_splits)

lemma conn_write_ok: "conn_write b w = (None, w') \<Longrightarrow> written w' = written w @ b"
  using conn_write_appends by fastforce

lemma ReadFull_ok:
  "ReadFull n r = (Inr p, r') \<Longrightarrow>
     length p = n \<and> avail r = p @ avail r' \<and> r' = r\<lparr>avail := avail r'\<rparr>"
  by (auto simp: ReadFull_def split: if_splits)

lemma ReadFull_append:
  "length p = n \<Longrightarrow> avail r = p @ rest \<Longrightarrow> ReadFull n r = (Inr p, r\<lparr>avail := rest\<rparr>)"
  by (simp add: ReadFull_def)

lemma reader_avail_self [simp]: "avail r = xs \<Longrightarrow> r\<lparr>avail := xs\<rparr> = r"
  by (cases r) simp

lemma conn_written_self [simp]: "w\<lparr>written := written w\<rparr> = w"
  by (cases w) simp

end
