(* ===== verification/Router.thy ===== *)
theory Router
  imports Golib
begin

text \<open>
  \<open>pkg/router/router.go\<close>: the table of the read-only redis commands and the decision
  where a command may be served.
\<close>

section \<open>Definitions\<close>

datatype Direction = Read | Write

definition readOnlyCommands :: "string list" where
  "readOnlyCommands =
   [''PING'', ''ECHO'', ''SELECT'', ''AUTH'', ''HELLO'', ''QUIT'',
    ''EXISTS'', ''TYPE'', ''TTL'', ''PTTL'', ''EXPIRETIME'', ''PEXPIRETIME'',
    ''KEYS'', ''SCAN'', ''RANDOMKEY'', ''DUMP'', ''TOUCH'', ''OBJECT'',
    ''MEMORY'',
    ''GET'', ''MGET'', ''GETRANGE'', ''SUBSTR'', ''STRLEN'', ''LCS'',
    ''GETBIT'', ''BITCOUNT'', ''BITPOS'', ''BITFIELD_RO'',
    ''HGET'', ''HMGET'', ''HGETALL'', ''HKEYS'', ''HVALS'', ''HLEN'',
    ''HEXISTS'', ''HSTRLEN'', ''HSCAN'', ''HRANDFIELD'',
    ''HTTL'', ''HPTTL'', ''HEXPIRETIME'', ''HPEXPIRETIME'',
    ''LRANGE'', ''LLEN'', ''LINDEX'', ''LPOS'',
    ''SMEMBERS'', ''SISMEMBER'', ''SMISMEMBER'', ''SCARD'', ''SRANDMEMBER'',
    ''SSCAN'', ''SINTER'', ''SUNION'', ''SDIFF'', ''SINTERCARD'',
    ''ZRANGE'', ''ZRANGEBYSCORE'', ''ZRANGEBYLEX'', ''ZREVRANGE'',
    ''ZREVRANGEBYSCORE'', ''ZREVRANGEBYLEX'', ''ZCARD'', ''ZCOUNT'',
    ''ZLEXCOUNT'', ''ZSCORE'', ''ZMSCORE'', ''ZRANK'', ''ZREVRANK'',
    ''ZSCAN'', ''ZRANDMEMBER'', ''ZDIFF'', ''ZINTER'', ''ZUNION'',
    ''ZINTERCARD'',
    ''PFCOUNT'',
    ''GEOPOS'', ''GEODIST'', ''GEOHASH'', ''GEOSEARCH'',
    ''GEORADIUS_RO'', ''GEORADIUSBYMEMBER_RO'',
    ''XRANGE'', ''XREVRANGE'', ''XLEN'', ''XREAD'', ''XINFO'', ''XPENDING'',
    ''SORT_RO'',
    ''EVAL_RO'', ''EVALSHA_RO'', ''FCALL_RO'',
    ''SUBSCRIBE'', ''UNSUBSCRIBE'', ''PSUBSCRIBE'', ''PUNSUBSCRIBE'',
    ''SSUBSCRIBE'', ''SUNSUBSCRIBE'', ''PUBSUB'',
    ''INFO'', ''TIME'', ''DBSIZE'', ''COMMAND'', ''LASTSAVE'', ''LOLWUT'',
    ''JSON.GET'', ''JSON.MGET'', ''JSON.TYPE'', ''JSON.STRLEN'',
    ''JSON.ARRLEN'', ''JSON.ARRINDEX'', ''JSON.OBJKEYS'', ''JSON.OBJLEN'',
    ''JSON.DEBUG'', ''JSON.RESP'',
    ''FT.SEARCH'', ''FT.AGGREGATE'', ''FT.EXPLAIN'', ''FT.EXPLAINCLI'',
    ''FT.INFO'', ''FT.PROFILE'', ''FT.TAGVALS'', ''FT.SPELLCHECK'',
    ''FT.SUGGET'', ''FT.SUGLEN'', ''FT.DICTDUMP'', ''FT.SYNDUMP'',
    ''FT._LIST'',
    ''BF.EXISTS'', ''BF.MEXISTS'', ''BF.INFO'', ''BF.CARD'', ''BF.SCANDUMP'',
    ''CF.EXISTS'', ''CF.MEXISTS'', ''CF.COUNT'', ''CF.INFO'', ''CF.SCANDUMP'',
    ''CMS.QUERY'', ''CMS.INFO'',
    ''TOPK.QUERY'', ''TOPK.COUNT'', ''TOPK.LIST'', ''TOPK.INFO'',
    ''TDIGEST.QUANTILE'', ''TDIGEST.CDF'', ''TDIGEST.MIN'', ''TDIGEST.MAX'',
    ''TDIGEST.RANK'', ''TDIGEST.REVRANK'', ''TDIGEST.BYRANK'',
    ''TDIGEST.BYREVRANK'', ''TDIGEST.TRIMMED_MEAN'', ''TDIGEST.INFO'',
    ''TS.GET'', ''TS.MGET'', ''TS.RANGE'', ''TS.REVRANGE'',
    ''TS.MRANGE'', ''TS.MREVRANGE'', ''TS.INFO'', ''TS.QUERYINDEX'',
    ''GRAPH.RO_QUERY'', ''GRAPH.EXPLAIN'', ''GRAPH.LIST'', ''GRAPH.SLOWLOG'']"

definition GetDirection :: "(string \<Rightarrow> string) \<Rightarrow> string \<Rightarrow> Direction" where
  "GetDirection uni cmd = (if ToUpper uni cmd \<in> set readOnlyCommands then Read else Write)"

section \<open>Facts\<close>

lemma upper_char_ascii [simp]: "is_ascii c \<Longrightarrow> is_ascii (upper_char c)"
  by (auto simp: is_ascii_def upper_char_def)

lemma upper_char_idem [simp]: "upper_char (upper_char c) = upper_char c"
proof (cases "97 \<le> (of_char c :: nat) \<and> (of_char c :: nat) \<le> 122")
  case True
  then have "upper_char c = char_of ((of_char c :: nat) - 32)" by (simp add: upper_char_def)
  moreover from True have "(of_char c :: nat) - 32 < 256" by linarith
  then have "(of_char (char_of ((of_char c :: nat) - 32) :: char) :: nat) = of_char c - 32"
    by simp
  ultimately show ?thesis
    using True by (auto simp: upper_char_def [of "char_of ((of_char c :: nat) - 32)"])
next
  case False
  then show ?thesis by (auto simp: upper_char_def)
qed

lemma list_all_ascii_upper [simp]:
  "list_all is_ascii s \<Longrightarrow> list_all is_ascii (map upper_char s)"
  by (induction s) auto

lemma ToUpper_idem: "list_all is_ascii s \<Longrightarrow> ToUpper uni (ToUpper uni s) = ToUpper uni s"
  by (simp add: ToUpper_def o_def)

lemma readOnlyCommands_ascii:
  "list_all (\<lambda>s. list_all is_ascii s \<and> map upper_char s = s) readOnlyCommands"
  by (simp add: readOnlyCommands_def is_ascii_def upper_char_def)

lemma GetDirection_Read_iff: "GetDirection uni cmd = Read \<longleftrightarrow> ToUpper uni cmd \<in> set readOnlyCommands"
  by (simp add: GetDirection_def)

lemma GetDirection_Write_iff: "GetDirection uni cmd = Write \<longleftrightarrow> ToUpper uni cmd \<notin> set readOnlyCommands"
  by (simp add: GetDirection_def)

text \<open>
  The commands that must not reach a replica, by group: every command of the Redis command
  reference (with its vector sets, JSON, search, probabilistic, time series and graph modules)
  that changes the dataset or may do so, those that publish, the scripts and transactions
  that may contain writes, and the administration of a server. The README names \<open>SORT\<close>,
  \<open>GEORADIUS\<close>, \<open>EVAL\<close>, \<open>BITFIELD\<close>, \<open>GETEX\<close> and \<open>XREADGROUP\<close> of those that only may write.
\<close>

definition keyspaceWrites :: "string list" where
  "keyspaceWrites = [
    ''COPY'', ''DEL'', ''EXPIRE'', ''EXPIREAT'', ''MIGRATE'', ''MOVE'', ''PERSIST'', ''PEXPIRE'',
    ''PEXPIREAT'', ''RENAME'', ''RENAMENX'', ''RESTORE'', ''RESTORE-ASKING'', ''SORT'', ''UNLINK'',
    ''FLUSHALL'', ''FLUSHDB'', ''SWAPDB'']"

definition stringWrites :: "string list" where
  "stringWrites = [
    ''APPEND'', ''DECR'', ''DECRBY'', ''DELEX'', ''GETDEL'', ''GETEX'', ''GETSET'', ''INCR'',
    ''INCRBY'', ''INCRBYFLOAT'', ''MSET'', ''MSETEX'', ''MSETNX'', ''PSETEX'', ''SET'', ''SETEX'',
    ''SETNX'', ''SETRANGE'', ''BITFIELD'', ''BITOP'', ''SETBIT'', ''PFADD'', ''PFDEBUG'',
    ''PFMERGE'']"

definition hashWrites :: "string list" where
  "hashWrites = [
    ''HDEL'', ''HEXPIRE'', ''HEXPIREAT'', ''HGETDEL'', ''HGETEX'', ''HINCRBY'', ''HINCRBYFLOAT'',
    ''HMSET'', ''HPERSIST'', ''HPEXPIRE'', ''HPEXPIREAT'', ''HSET'', ''HSETEX'', ''HSETNX'']"

definition listWrites :: "string list" where
  "listWrites = [
    ''BLMOVE'', ''BLMPOP'', ''BLPOP'', ''BRPOP'', ''BRPOPLPUSH'', ''LINSERT'', ''LMOVE'', ''LMPOP'',
    ''LPOP'', ''LPUSH'', ''LPUSHX'', ''LREM'', ''LSET'', ''LTRIM'', ''RPOP'', ''RPOPLPUSH'',
    ''RPUSH'', ''RPUSHX'']"

definition setWrites :: "string list" where
  "setWrites = [
    ''SADD'', ''SDIFFSTORE'', ''SINTERSTORE'', ''SMOVE'', ''SPOP'', ''SREM'', ''SUNIONSTORE'',
    ''BZMPOP'', ''BZPOPMAX'', ''BZPOPMIN'', ''ZADD'', ''ZDIFFSTORE'', ''ZINCRBY'', ''ZINTERSTORE'',
    ''ZMPOP'', ''ZPOPMAX'', ''ZPOPMIN'', ''ZRANGESTORE'', ''ZREM'', ''ZREMRANGEBYLEX'',
    ''ZREMRANGEBYRANK'', ''ZREMRANGEBYSCORE'', ''ZUNIONSTORE'', ''GEOADD'', ''GEORADIUS'',
    ''GEORADIUSBYMEMBER'', ''GEOSEARCHSTORE'', ''VADD'', ''VREM'', ''VSETATTR'']"

definition streamWrites :: "string list" where
  "streamWrites = [
    ''XACK'', ''XACKDEL'', ''XADD'', ''XAUTOCLAIM'', ''XCLAIM'', ''XDEL'', ''XDELEX'', ''XGROUP'',
    ''XREADGROUP'', ''XSETID'', ''XTRIM'', ''PUBLISH'', ''SPUBLISH'']"

definition scriptCommands :: "string list" where
  "scriptCommands = [
    ''EVAL'', ''EVALSHA'', ''FCALL'', ''FUNCTION'', ''SCRIPT'', ''MULTI'', ''EXEC'', ''DISCARD'',
    ''WATCH'', ''UNWATCH'']"

definition adminCommands :: "string list" where
  "adminCommands = [
    ''ACL'', ''ASKING'', ''BGREWRITEAOF'', ''BGSAVE'', ''CLIENT'', ''CLUSTER'', ''CONFIG'',
    ''DEBUG'', ''FAILOVER'', ''LATENCY'', ''MODULE'', ''MONITOR'', ''PSYNC'', ''READONLY'',
    ''READWRITE'', ''REPLCONF'', ''REPLICAOF'', ''RESET'', ''ROLE'', ''SAVE'', ''SHUTDOWN'',
    ''SLAVEOF'', ''SLOWLOG'', ''SYNC'', ''WAIT'', ''WAITAOF'']"

definition jsonSearchWrites :: "string list" where
  "jsonSearchWrites = [
    ''JSON.ARRAPPEND'', ''JSON.ARRINSERT'', ''JSON.ARRPOP'', ''JSON.ARRTRIM'', ''JSON.CLEAR'',
    ''JSON.DEL'', ''JSON.FORGET'', ''JSON.MERGE'', ''JSON.MSET'', ''JSON.NUMINCRBY'',
    ''JSON.NUMMULTBY'', ''JSON.NUMPOWBY'', ''JSON.SET'', ''JSON.STRAPPEND'', ''JSON.TOGGLE'',
    ''FT.ADD'', ''FT.ALIASADD'', ''FT.ALIASDEL'', ''FT.ALIASUPDATE'', ''FT.ALTER'', ''FT.CONFIG'',
    ''FT.CREATE'', ''FT.CURSOR'', ''FT.DEL'', ''FT.DICTADD'', ''FT.DICTDEL'', ''FT.DROP'',
    ''FT.DROPINDEX'', ''FT.SUGADD'', ''FT.SUGDEL'', ''FT.SYNADD'', ''FT.SYNUPDATE'']"

definition sketchWrites :: "string list" where
  "sketchWrites = [
    ''BF.ADD'', ''BF.INSERT'', ''BF.LOADCHUNK'', ''BF.MADD'', ''BF.RESERVE'', ''CF.ADD'',
    ''CF.ADDNX'', ''CF.DEL'', ''CF.INSERT'', ''CF.INSERTNX'', ''CF.LOADCHUNK'', ''CF.RESERVE'',
    ''CMS.INCRBY'', ''CMS.INITBYDIM'', ''CMS.INITBYPROB'', ''CMS.MERGE'', ''TOPK.ADD'',
    ''TOPK.INCRBY'', ''TOPK.RESERVE'', ''TDIGEST.ADD'', ''TDIGEST.CREATE'', ''TDIGEST.MERGE'',
    ''TDIGEST.RESET'', ''TS.ADD'', ''TS.ALTER'', ''TS.CREATE'', ''TS.CREATERULE'', ''TS.DECRBY'',
    ''TS.DEL'', ''TS.DELETERULE'', ''TS.INCRBY'', ''TS.MADD'', ''GRAPH.BULK'', ''GRAPH.CONFIG'',
    ''GRAPH.CONSTRAINT'', ''GRAPH.DELETE'', ''GRAPH.PROFILE'', ''GRAPH.QUERY'']"

definition writeCommands :: "string list" where
  "writeCommands = keyspaceWrites @ stringWrites @ hashWrites @ listWrites @ setWrites @ streamWrites @ scriptCommands @ adminCommands @ jsonSearchWrites @ sketchWrites"

lemma keyspaceWrites_not_read: "list_all (\<lambda>c. c \<notin> set readOnlyCommands) keyspaceWrites"
  by (simp add: keyspaceWrites_def readOnlyCommands_def)

lemma stringWrites_not_read: "list_all (\<lambda>c. c \<notin> set readOnlyCommands) stringWrites"
  by (simp add: stringWrites_def readOnlyCommands_def)

lemma hashWrites_not_read: "list_all (\<lambda>c. c \<notin> set readOnlyCommands) hashWrites"
  by (simp add: hashWrites_def readOnlyCommands_def)

lemma listWrites_not_read: "list_all (\<lambda>c. c \<notin> set readOnlyCommands) listWrites"
  by (simp add: listWrites_def readOnlyCommands_def)

lemma setWrites_not_read: "list_all (\<lambda>c. c \<notin> set readOnlyCommands) setWrites"
  by (simp add: setWrites_def readOnlyCommands_def)

lemma streamWrites_not_read: "list_all (\<lambda>c. c \<notin> set readOnlyCommands) streamWrites"
  by (simp add: streamWrites_def readOnlyCommands_def)

lemma scriptCommands_not_read: "list_all (\<lambda>c. c \<notin> set readOnlyCommands) scriptCommands"
  by (simp add: scriptCommands_def readOnlyCommands_def)

lemma adminCommands_not_read: "list_all (\<lambda>c. c \<notin> set readOnlyCommands) adminCommands"
  by (simp add: adminCommands_def readOnlyCommands_def)

lemma jsonSearchWrites_not_read: "list_all (\<lambda>c. c \<notin> set readOnlyCommands) jsonSearchWrites"
  by (simp add: jsonSearchWrites_def readOnlyCommands_def)

lemma sketchWrites_not_read: "list_all (\<lambda>c. c \<notin> set readOnlyCommands) sketchWrites"
  by (simp add: sketchWrites_def readOnlyCommands_def)

lemma write_not_read: "list_all (\<lambda>c. c \<notin> set readOnlyCommands) writeCommands"
  by (simp add: writeCommands_def keyspaceWrites_not_read stringWrites_not_read hashWrites_not_read listWrites_not_read setWrites_not_read streamWrites_not_read scriptCommands_not_read adminCommands_not_read jsonSearchWrites_not_read sketchWrites_not_read)

lemma read_variants: "list_all (\<lambda>c. c \<in> set readOnlyCommands)
    [''SORT_RO'', ''EVAL_RO'', ''BITFIELD_RO'', ''GET'', ''MGET'', ''HGETALL'', ''SCAN'', ''FT.SEARCH'', ''JSON.GET'', ''TS.RANGE'']"
  by code_simp

section \<open>Properties\<close>

text \<open>
  C27. The routing table is safe: every command of \<open>writeCommands\<close> (the 223 commands of the Redis
  command reference and its modules that write or may write, publish, run scripts or
  transactions or administer the server), in whatever letter case it is sent, goes to the
  master; the read-only commands and variants the README names may go to a replica; and the
  letter case of a command never matters.
\<close>

theorem write_commands_go_to_master:
  "(ToUpper uni cmd \<in> set writeCommands \<longrightarrow> GetDirection uni cmd = Write) \<and>
   (ToUpper uni cmd \<in> set [''SORT_RO'', ''EVAL_RO'', ''BITFIELD_RO'', ''GET'', ''MGET'', ''HGETALL'', ''SCAN'',
      ''FT.SEARCH'', ''JSON.GET'', ''TS.RANGE''] \<longrightarrow> GetDirection uni cmd = Read) \<and>
   (list_all is_ascii cmd \<longrightarrow> GetDirection uni (ToUpper uni cmd) = GetDirection uni cmd)"
proof (intro conjI impI)
  show "ToUpper uni cmd \<in> set writeCommands \<Longrightarrow> GetDirection uni cmd = Write"
    using write_not_read by (auto simp: GetDirection_Write_iff list_all_iff)
  show "ToUpper uni cmd \<in> set [''SORT_RO'', ''EVAL_RO'', ''BITFIELD_RO'', ''GET'', ''MGET'', ''HGETALL'', ''SCAN'',
      ''FT.SEARCH'', ''JSON.GET'', ''TS.RANGE''] \<Longrightarrow> GetDirection uni cmd = Read"
    using read_variants unfolding GetDirection_Read_iff list_all_iff by blast
  show "list_all is_ascii cmd \<Longrightarrow> GetDirection uni (ToUpper uni cmd) = GetDirection uni cmd"
    by (simp add: GetDirection_def ToUpper_idem)
qed

theorem write_commands_go_to_master_witness:
  "GetDirection (\<lambda>s. s) ''bitField'' = Write \<and> GetDirection (\<lambda>s. s) ''hGetAll'' = Read"
proof -
  have "ToUpper (\<lambda>s. s) ''bitField'' = ''BITFIELD''" "ToUpper (\<lambda>s. s) ''hGetAll'' = ''HGETALL''"
    by (simp_all add: ToUpper_def is_ascii_def upper_char_def char_of_eq_iff take_bit_nat_def)
  then show ?thesis
    using write_commands_go_to_master [of "\<lambda>s. s" "''bitField''"] write_commands_go_to_master [of "\<lambda>s. s" "''hGetAll''"]
    by (simp add: writeCommands_def stringWrites_def)
qed

end
