(* ===== verification/Resp.thy ===== *)
theory Resp
  imports Golib
begin

text \<open>
  \<open>pkg/proxy/resp.go\<close>: the RESP framing of the router mode. \<open>readLine\<close>,
  \<open>parseRESPInt\<close>, \<open>readCommand\<close> and \<open>copyRESP\<close> are translated statement by
  statement; every function returns the reader it leaves behind, on its error branches
  too. The second part states what RESP framing is (the grammar \<open>resp_value\<close> and the
  encoders of commands), the third proves that the two agree.
\<close>

section \<open>Definitions\<close>

definition maxRESPElements :: int where "maxRESPElements = 1024 * 1024"
definition maxBulkLen :: int where "maxBulkLen = 512 * 1024 * 1024"
definition maxLineLen :: int where "maxLineLen = 64 * 1024"

text \<open>The errors of this file; \<open>InlineCommand\<close> is \<open>errInlineCommand\<close>.\<close>

datatype resp_error =
    IOErr io_error
  | LineTooLong
  | MalformedLine bytes
  | InlineCommand
  | MalformedLength bytes
  | TooManyArguments int
  | ExpectedBulk char
  | InvalidBulkLength int
  | BulkTooLong int
  | AggregateTooLong int
  | MapTooLong int
  | AttributeTooLong int
  | PushTooLong int
  | UnexpectedType char

subsection \<open>Lines and lengths\<close>

lemma ReadSlice_full_shrinks:
  "ReadSlice d r = (part, BufferFull, r') \<Longrightarrow> length (avail r') < length (avail r)"
  by (auto simp: ReadSlice_def Let_def bufSize_def min_def split: if_splits)

function readLine_loop :: "bytes \<Rightarrow> reader \<Rightarrow> (resp_error + bytes) \<times> reader" where
  "readLine_loop line br =
     (case ReadSlice LF br of
        (part, st, br') \<Rightarrow>
          let line' = line @ part in
          case st of
            SliceOk \<Rightarrow> (Inr line', br')
          | SliceErr e \<Rightarrow> (Inl (IOErr e), br')
          | BufferFull \<Rightarrow>
              if maxLineLen < int (length line') then (Inl LineTooLong, br')
              else readLine_loop line' br')"
  by pat_completeness auto
termination
  by (relation "measure (\<lambda>(line, br). length (avail br))")
    (auto dest: ReadSlice_full_shrinks [OF sym])

declare readLine_loop.simps [simp del]

definition readLine :: "reader \<Rightarrow> (resp_error + bytes) \<times> reader" where
  "readLine br =
     (case readLine_loop [] br of
        (Inl e, br') \<Rightarrow> (Inl e, br')
      | (Inr line, br') \<Rightarrow>
          if length line < 3 \<or> line ! (length line - 2) \<noteq> CR
          then (Inl (MalformedLine line), br')
          else (Inr line, br'))"

definition parseRESPInt :: "bytes \<Rightarrow> resp_error + int" where
  "parseRESPInt b = (case ParseInt b of Inl _ \<Rightarrow> Inl (MalformedLength b) | Inr n \<Rightarrow> Inr n)"

text \<open>The slice \<open>line[1 : len(line)-2]\<close>.\<close>

definition line_payload :: "bytes \<Rightarrow> bytes" where
  "line_payload line = take (length line - 3) (drop 1 line)"

subsection \<open>Commands\<close>

text \<open>The argument loop: \<open>i\<close> counts up, the first argument stays to count down.\<close>

fun readCommand_loop ::
  "(string \<Rightarrow> string) \<Rightarrow> nat \<Rightarrow> nat \<Rightarrow> string \<Rightarrow> bytes \<Rightarrow> reader \<Rightarrow>
     (resp_error + string \<times> bytes) \<times> reader" where
  "readCommand_loop uni 0 i name raw br = (Inr (name, raw), br)"
| "readCommand_loop uni (Suc k) i name raw br =
     (case readLine br of
        (Inl e, br1) \<Rightarrow> (Inl e, br1)
      | (Inr line, br1) \<Rightarrow>
          if line ! 0 \<noteq> CHR ''$'' then (Inl (ExpectedBulk (line ! 0)), br1)
          else case parseRESPInt (line_payload line) of
            Inl e \<Rightarrow> (Inl e, br1)
          | Inr l \<Rightarrow>
              if l < 0 \<or> maxBulkLen < l then (Inl (InvalidBulkLength l), br1)
              else case ReadFull (nat (l + 2)) br1 of
                (Inl e, br2) \<Rightarrow> (Inl (IOErr e), br2)
              | (Inr payload, br2) \<Rightarrow>
                  readCommand_loop uni k (Suc i)
                    (if i = 0 then ToUpper uni (take (nat l) payload) else name)
                    (raw @ line @ payload) br2)"

definition readCommand ::
  "(string \<Rightarrow> string) \<Rightarrow> reader \<Rightarrow> (resp_error + string \<times> bytes) \<times> reader" where
  "readCommand uni br =
     (case Peek1 br of
        Inl e \<Rightarrow> (Inl (IOErr e), br)
      | Inr first \<Rightarrow>
          if first \<noteq> CHR ''*'' then (Inl InlineCommand, br)
          else case readLine br of
            (Inl e, br1) \<Rightarrow> (Inl e, br1)
          | (Inr line, br1) \<Rightarrow>
              (case parseRESPInt (line_payload line) of
                 Inl e \<Rightarrow> (Inl e, br1)
               | Inr n \<Rightarrow>
                   if maxRESPElements < n then (Inl (TooManyArguments n), br1)
                   else readCommand_loop uni (nat n) 0 [] line br1))"

subsection \<open>Replies\<close>

text \<open>
  The cases of the \<open>switch line[0]\<close> of \<open>copyRESP\<close>, one definition per group: the new
  value of the counter \<open>remaining\<close>, which is an \<open>int64\<close>, or the error.
\<close>

definition line_types :: "char list" where "line_types = ''+-:,#(_''"
definition blob_types :: "char list" where "blob_types = ''$=!''"
definition agg_types :: "char list" where "agg_types = ''*~''"

definition copyRESP_blob ::
  "bytes \<Rightarrow> int \<Rightarrow> conn \<Rightarrow> reader \<Rightarrow> (resp_error + int) \<times> conn \<times> reader" where
  "copyRESP_blob payload remaining w br =
     (case parseRESPInt payload of
        Inl e \<Rightarrow> (Inl e, w, br)
      | Inr n \<Rightarrow>
          if maxBulkLen < n then (Inl (BulkTooLong n), w, br)
          else if 0 \<le> n then
            (case CopyN w br (nat (n + 2)) of
               (Some e, w', br') \<Rightarrow> (Inl (IOErr e), w', br')
             | (None, w', br') \<Rightarrow> (Inr (int64 (remaining - 1)), w', br'))
          else (Inr (int64 (remaining - 1)), w, br))"

definition copyRESP_aggregate ::
  "bytes \<Rightarrow> int \<Rightarrow> conn \<Rightarrow> reader \<Rightarrow> (resp_error + int) \<times> conn \<times> reader" where
  "copyRESP_aggregate payload remaining w br =
     (case parseRESPInt payload of
        Inl e \<Rightarrow> (Inl e, w, br)
      | Inr n \<Rightarrow>
          if maxRESPElements < n then (Inl (AggregateTooLong n), w, br)
          else (Inr (if 0 < n then int64 (int64 (remaining - 1) + n) else int64 (remaining - 1)), w, br))"

definition copyRESP_map ::
  "bytes \<Rightarrow> int \<Rightarrow> conn \<Rightarrow> reader \<Rightarrow> (resp_error + int) \<times> conn \<times> reader" where
  "copyRESP_map payload remaining w br =
     (case parseRESPInt payload of
        Inl e \<Rightarrow> (Inl e, w, br)
      | Inr n \<Rightarrow>
          if maxRESPElements < n then (Inl (MapTooLong n), w, br)
          else (Inr (if 0 < n then int64 (int64 (remaining - 1) + int64 (2 * n))
                else int64 (remaining - 1)), w, br))"

definition copyRESP_attribute ::
  "bytes \<Rightarrow> int \<Rightarrow> conn \<Rightarrow> reader \<Rightarrow> (resp_error + int) \<times> conn \<times> reader" where
  "copyRESP_attribute payload remaining w br =
     (case parseRESPInt payload of
        Inl e \<Rightarrow> (Inl e, w, br)
      | Inr n \<Rightarrow>
          if maxRESPElements < n then (Inl (AttributeTooLong n), w, br)
          else (Inr (if 0 < n then int64 (remaining + int64 (2 * n)) else remaining), w, br))"

definition copyRESP_push ::
  "bytes \<Rightarrow> int \<Rightarrow> conn \<Rightarrow> reader \<Rightarrow> (resp_error + int) \<times> conn \<times> reader" where
  "copyRESP_push payload remaining w br =
     (case parseRESPInt payload of
        Inl e \<Rightarrow> (Inl e, w, br)
      | Inr n \<Rightarrow>
          if maxRESPElements < n then (Inl (PushTooLong n), w, br)
          else (Inr (if 0 < n then int64 (remaining + n) else remaining), w, br))"

definition copyRESP_switch ::
  "char \<Rightarrow> bytes \<Rightarrow> int \<Rightarrow> conn \<Rightarrow> reader \<Rightarrow> (resp_error + int) \<times> conn \<times> reader" where
  "copyRESP_switch t payload remaining w br =
     (if t \<in> set line_types then (Inr (int64 (remaining - 1)), w, br)
      else if t \<in> set blob_types then copyRESP_blob payload remaining w br
      else if t \<in> set agg_types then copyRESP_aggregate payload remaining w br
      else if t = CHR ''%'' then copyRESP_map payload remaining w br
      else if t = CHR ''|'' then copyRESP_attribute payload remaining w br
      else if t = CHR ''>'' then copyRESP_push payload remaining w br
      else (Inl (UnexpectedType t), w, br))"

subsection \<open>The loop of copyRESP\<close>

text \<open>The loop terminates because every line it reads shortens the stream.\<close>

lemma ReadSlice_avail:
  assumes "ReadSlice d r = (part, st, r')"
  shows "avail r = part @ avail r' \<and> r' = r\<lparr>avail := avail r'\<rparr>"
proof -
  let ?n = "length (takeWhile (\<lambda>c. c \<noteq> d) (take bufSize (avail r)))"
  have "?n < length (take bufSize (avail r)) \<Longrightarrow> Suc ?n \<le> bufSize" by simp
  with assms show ?thesis
    by (auto simp: ReadSlice_def Let_def min_absorb1 split: if_splits)
qed

lemma readLine_loop_shrinks:
  "readLine_loop line br = (res, br') \<Longrightarrow>
     length (avail br') \<le> length (avail br) \<and> br' = br\<lparr>avail := avail br'\<rparr> \<and>
     (\<forall>l. res = Inr l \<longrightarrow> line @ avail br = l @ avail br')"
proof (induction line br rule: readLine_loop.induct)
  case (1 line br)
  obtain part st br1 where slice: "ReadSlice LF br = (part, st, br1)" by (metis prod_cases3)
  note split_avail = ReadSlice_avail [OF slice]
  show ?case
  proof (cases "st = BufferFull \<and> \<not> maxLineLen < int (length (line @ part))")
    case True
    then have "readLine_loop (line @ part) br1 = (res, br')"
      using "1.prems" slice by (simp add: readLine_loop.simps [of line br])
    from "1.IH" [OF slice [symmetric] refl refl _ _ this] True split_avail show ?thesis
      by (cases br; cases br1) auto
  next
    case False
    then show ?thesis
      using "1.prems" slice split_avail
      by (cases st) (auto simp: readLine_loop.simps [of line br] split: if_splits)
  qed
qed

lemma readLine_consumes:
  "readLine br = (res, br') \<Longrightarrow>
     length (avail br') \<le> length (avail br) \<and> br' = br\<lparr>avail := avail br'\<rparr> \<and>
     (\<forall>l. res = Inr l \<longrightarrow> avail br = l @ avail br' \<and> 3 \<le> length l)"
  by (auto simp: readLine_def dest: readLine_loop_shrinks split: prod.splits sum.splits if_splits)

lemma readLine_ok:
  "readLine br = (Inr line, br') \<Longrightarrow>
     avail br = line @ avail br' \<and> 3 \<le> length line \<and> br' = br\<lparr>avail := avail br'\<rparr>"
  using readLine_consumes by fastforce

lemma CopyN_avail: "CopyN w br n = (e, w', br') \<Longrightarrow> br' = br\<lparr>avail := drop n (avail br)\<rparr>"
  by (auto simp: CopyN_def Let_def split: prod.splits option.splits)

lemma copyRESP_blob_shrinks:
  "copyRESP_blob payload remaining w br = (res, w', br') \<Longrightarrow>
     length (avail br') \<le> length (avail br)"
  by (auto simp: copyRESP_blob_def split: if_splits sum.splits prod.splits option.splits
      dest: CopyN_avail)

lemma copyRESP_switch_shrinks:
  "copyRESP_switch t payload remaining w br = (res, w', br') \<Longrightarrow>
     length (avail br') \<le> length (avail br)"
  unfolding copyRESP_switch_def copyRESP_aggregate_def copyRESP_map_def copyRESP_attribute_def
    copyRESP_push_def
  by (auto split: if_splits sum.splits dest: copyRESP_blob_shrinks)

function copyRESP_loop :: "int \<Rightarrow> conn \<Rightarrow> reader \<Rightarrow> resp_error option \<times> conn \<times> reader" where
  "copyRESP_loop remaining w br =
     (if \<not> 0 < remaining then (None, w, br)
      else case readLine br of
        (Inl e, br1) \<Rightarrow> (Some e, w, br1)
      | (Inr line, br1) \<Rightarrow>
          (case conn_write line w of
             (Some e, w1) \<Rightarrow> (Some (IOErr e), w1, br1)
           | (None, w1) \<Rightarrow>
               (case copyRESP_switch (line ! 0) (line_payload line) remaining w1 br1 of
                  (Inl e, w2, br2) \<Rightarrow> (Some e, w2, br2)
                | (Inr remaining', w2, br2) \<Rightarrow> copyRESP_loop remaining' w2 br2)))"
  by pat_completeness auto
termination
  by (relation "measure (\<lambda>(remaining, w, br). length (avail br))")
    (auto dest!: readLine_ok [OF sym] copyRESP_switch_shrinks [OF sym])

declare copyRESP_loop.simps [simp del]

definition copyRESP :: "conn \<Rightarrow> reader \<Rightarrow> resp_error option \<times> conn \<times> reader" where
  "copyRESP w br = copyRESP_loop 1 w br"

section \<open>The protocol\<close>

text \<open>
  The longest line \<open>readLine\<close> accepts: the length test runs only when the 4096-byte
  buffer is full, so it is the seventeenth buffer that exceeds \<open>maxLineLen\<close>.
\<close>

definition maxLineRead :: nat where "maxLineRead = 17 * bufSize"

definition resp_line :: "bytes \<Rightarrow> bool" where
  "resp_line l \<longleftrightarrow> 3 \<le> length l \<and> length l \<le> maxLineRead \<and>
     drop (length l - 2) l = CRLF \<and> LF \<notin> set (butlast l)"

text \<open>What one call of \<open>readLine\<close> does to a stream, as a closed formula.\<close>

definition readLine_spec :: "reader \<Rightarrow> (resp_error + bytes) \<times> reader" where
  "readLine_spec br =
     (let pre = takeWhile (\<lambda>c. c \<noteq> LF) (avail br);
          line = pre @ [LF];
          rest = (\<lambda>n. br\<lparr>avail := drop n (avail br)\<rparr>)
      in if length pre < length (avail br) \<and> length line \<le> maxLineRead
         then (if resp_line line then Inr line else Inl (MalformedLine line), rest (length line))
         else if maxLineRead \<le> length (avail br) then (Inl LineTooLong, rest maxLineRead)
         else (Inl (IOErr (rerr br)), rest (length (avail br))))"

text \<open>A header line: a type byte and a number.\<close>

definition header :: "char list \<Rightarrow> int \<Rightarrow> bytes \<Rightarrow> bool" where
  "header ts n l \<longleftrightarrow> resp_line l \<and> l ! 0 \<in> set ts \<and> ParseInt (line_payload l) = Inr n"

text \<open>
  The grammar of replies. \<open>resp_value v\<close>: the bytes \<open>v\<close> are one reply, the attributes
  and push messages before it included; \<open>resp_values k bs\<close>: the bytes are \<open>k\<close> of them
  in a row. Aggregates nest.
\<close>

inductive resp_value :: "bytes \<Rightarrow> bool" and resp_values :: "nat \<Rightarrow> bytes \<Rightarrow> bool" where
  rv_simple: "resp_line l \<Longrightarrow> l ! 0 \<in> set line_types \<Longrightarrow> resp_value l"
| rv_null: "header blob_types n l \<Longrightarrow> n < 0 \<Longrightarrow> resp_value l"
| rv_blob: "header blob_types n l \<Longrightarrow> 0 \<le> n \<Longrightarrow> n \<le> maxBulkLen \<Longrightarrow> length p = nat n + 2 \<Longrightarrow>
    resp_value (l @ p)"
| rv_aggregate: "header agg_types n l \<Longrightarrow> n \<le> maxRESPElements \<Longrightarrow> resp_values (nat n) bs \<Longrightarrow>
    resp_value (l @ bs)"
| rv_map: "header ''%'' n l \<Longrightarrow> n \<le> maxRESPElements \<Longrightarrow> resp_values (2 * nat n) bs \<Longrightarrow>
    resp_value (l @ bs)"
| rv_attribute: "header ''|'' n l \<Longrightarrow> n \<le> maxRESPElements \<Longrightarrow> resp_values (2 * nat n) bs \<Longrightarrow>
    resp_value v \<Longrightarrow> resp_value (l @ bs @ v)"
| rv_push: "header ''>'' n l \<Longrightarrow> n \<le> maxRESPElements \<Longrightarrow> resp_values (nat n) bs \<Longrightarrow>
    resp_value v \<Longrightarrow> resp_value (l @ bs @ v)"
| rvs_0: "resp_values 0 []"
| rvs_Suc: "resp_value v \<Longrightarrow> resp_values k bs \<Longrightarrow> resp_values (Suc k) (v @ bs)"

text \<open>How a client writes a command: an array of bulk strings.\<close>

definition enc_bulk :: "bytes \<Rightarrow> bytes" where
  "enc_bulk s = ''$'' @ itoa (length s) @ CRLF @ s @ CRLF"

definition enc_command :: "bytes list \<Rightarrow> bytes" where
  "enc_command args = ''*'' @ itoa (length args) @ CRLF @ concat (map enc_bulk args)"

text \<open>The commands redis itself accepts: within the limits and not empty.\<close>

definition wf_command :: "bytes list \<Rightarrow> bool" where
  "wf_command args \<longleftrightarrow> args \<noteq> [] \<and> int (length args) \<le> maxRESPElements \<and>
     list_all (\<lambda>a. int (length a) \<le> maxBulkLen) args"

section \<open>Lines\<close>

lemma ReadSlice_found:
  assumes "avail r = pre @ d # post" "d \<notin> set pre" "length pre < bufSize"
  shows "ReadSlice d r = (pre @ [d], SliceOk, r\<lparr>avail := post\<rparr>)"
proof -
  obtain k where k: "bufSize - length pre = Suc k"
    using assms(3) by (metis Suc_diff_Suc)
  then have "take bufSize (avail r) = pre @ d # take k post"
    using assms by simp
  with assms show ?thesis by (simp add: ReadSlice_def)
qed

lemma ReadSlice_full:
  assumes "d \<notin> set (take bufSize (avail r))" "bufSize \<le> length (avail r)"
  shows "ReadSlice d r =
    (take bufSize (avail r), BufferFull, r\<lparr>avail := drop bufSize (avail r)\<rparr>)"
  using assms by (simp add: ReadSlice_def takeWhile_neq_all)

lemma ReadSlice_short:
  assumes "d \<notin> set (avail r)" "length (avail r) < bufSize"
  shows "ReadSlice d r = (avail r, SliceErr (rerr r), r\<lparr>avail := []\<rparr>)"
  using assms by (simp add: ReadSlice_def takeWhile_neq_all)

text \<open>The accumulated line is a whole number of buffers, at most sixteen of them.\<close>

lemma full_buffers:
  assumes "bufSize dvd n" "n < maxLineRead"
  shows "\<not> maxLineLen < int n" "bufSize dvd n + bufSize"
  using assms by (auto simp: bufSize_def maxLineRead_def maxLineLen_def elim!: dvdE)

lemma readLine_loop_line:
  assumes "avail br = pre @ LF # post" "LF \<notin> set pre" "bufSize dvd length line"
    "length line + length pre < maxLineRead"
  shows "readLine_loop line br = (Inr (line @ pre @ [LF]), br\<lparr>avail := post\<rparr>)"
  using assms
proof (induction line br arbitrary: pre rule: readLine_loop.induct)
  case (1 line br)
  show ?case
  proof (cases "length pre < bufSize")
    case True
    then show ?thesis
      using "1.prems" by (simp add: readLine_loop.simps [of line br] ReadSlice_found)
  next
    case False
    let ?line = "line @ take bufSize pre" and ?br = "br\<lparr>avail := drop bufSize (avail br)\<rparr>"
    have slice: "ReadSlice LF br = (take bufSize pre, BufferFull, ?br)"
      using False "1.prems" by (subst ReadSlice_full) (auto dest: in_set_takeD)
    have len: "length ?line = length line + bufSize" "\<not> maxLineLen < int (length ?line)"
      using False "1.prems" full_buffers [of "length line + bufSize"] by (auto simp: full_buffers)
    have "readLine_loop ?line ?br = (Inr (?line @ drop bufSize pre @ [LF]), ?br\<lparr>avail := post\<rparr>)"
      using "1.IH" [OF slice [symmetric] refl refl refl, of "drop bufSize pre"] len False "1.prems"
      by (auto dest: in_set_dropD simp: full_buffers)
    then show ?thesis
      using slice len by (simp add: readLine_loop.simps [of line br] Let_def)
  qed
qed

lemma readLine_loop_long:
  assumes "LF \<notin> set (take (maxLineRead - length line) (avail br))" "bufSize dvd length line"
    "length line < maxLineRead" "maxLineRead - length line \<le> length (avail br)"
  shows "readLine_loop line br =
    (Inl LineTooLong, br\<lparr>avail := drop (maxLineRead - length line) (avail br)\<rparr>)"
  using assms
proof (induction line br rule: readLine_loop.induct)
  case (1 line br)
  let ?line = "line @ take bufSize (avail br)" and ?br = "br\<lparr>avail := drop bufSize (avail br)\<rparr>"
  obtain k where k: "length line = bufSize * k" "k < 17"
    using "1.prems"(2,3) by (auto simp: maxLineRead_def elim!: dvdE)
  then have room: "bufSize \<le> maxLineRead - length line"
    by (simp add: maxLineRead_def bufSize_def)
  have slice: "ReadSlice LF br = (take bufSize (avail br), BufferFull, ?br)"
  proof (rule ReadSlice_full)
    show "LF \<notin> set (take bufSize (avail br))"
      using "1.prems"(1) set_take_subset_set_take [OF room, of "avail br"] by (meson subsetD)
    show "bufSize \<le> length (avail br)" using room "1.prems"(4) by linarith
  qed
  have len: "length ?line = length line + bufSize" using room "1.prems"(4) by simp
  show ?case
  proof (cases "maxLineLen < int (length ?line)")
    case True
    then have "k = 16" using k len by (simp add: maxLineLen_def bufSize_def)
    with True show ?thesis
      using slice k len by (simp add: readLine_loop.simps [of line br] Let_def maxLineRead_def)
  next
    case False
    have "length line + bufSize < maxLineRead"
      using k False len by (simp add: maxLineLen_def maxLineRead_def bufSize_def)
    moreover have "LF \<notin> set (take (maxLineRead - length ?line) (drop bufSize (avail br)))"
      using "1.prems"(1) len set_drop_subset [of bufSize "take (maxLineRead - length line) (avail br)"]
      by (auto simp: drop_take)
    ultimately have "readLine_loop ?line ?br =
      (Inl LineTooLong, ?br\<lparr>avail := drop (maxLineRead - length ?line) (drop bufSize (avail br))\<rparr>)"
      using "1.IH" [OF slice [symmetric] refl refl refl False] len "1.prems" by auto
    moreover have "maxLineRead - (length line + bufSize) + bufSize = maxLineRead - length line"
      using room by linarith
    ultimately show ?thesis
      using slice False len by (simp add: readLine_loop.simps [of line br] Let_def)
  qed
qed

lemma readLine_loop_ends:
  assumes "LF \<notin> set (avail br)" "bufSize dvd length line"
    "length line + length (avail br) < maxLineRead"
  shows "readLine_loop line br = (Inl (IOErr (rerr br)), br\<lparr>avail := []\<rparr>)"
  using assms
proof (induction line br rule: readLine_loop.induct)
  case (1 line br)
  show ?case
  proof (cases "length (avail br) < bufSize")
    case True
    then show ?thesis
      using "1.prems" by (simp add: readLine_loop.simps [of line br] ReadSlice_short)
  next
    case False
    let ?line = "line @ take bufSize (avail br)" and ?br = "br\<lparr>avail := drop bufSize (avail br)\<rparr>"
    have slice: "ReadSlice LF br = (take bufSize (avail br), BufferFull, ?br)"
      using False "1.prems" by (subst ReadSlice_full) (auto dest: in_set_takeD)
    have len: "length ?line = length line + bufSize" "\<not> maxLineLen < int (length ?line)"
      using False "1.prems" full_buffers [of "length line + bufSize"] by (auto simp: full_buffers)
    have "readLine_loop ?line ?br = (Inl (IOErr (rerr ?br)), ?br\<lparr>avail := []\<rparr>)"
      using "1.IH" [OF slice [symmetric] refl refl refl] len False "1.prems"
      by (auto dest: in_set_dropD simp: full_buffers)
    then show ?thesis
      using slice len by (simp add: readLine_loop.simps [of line br] Let_def)
  qed
qed

lemma line_test:
  "resp_line (pre @ [LF]) \<longleftrightarrow> LF \<notin> set pre \<and> Suc (length pre) \<le> maxLineRead \<and>
     \<not> (length (pre @ [LF]) < 3 \<or> (pre @ [LF]) ! (length (pre @ [LF]) - 2) \<noteq> CR)"
  by (cases pre rule: rev_cases) (auto simp: resp_line_def nth_append butlast_append Suc_le_eq)

lemma readLine_closed: "readLine br = readLine_spec br"
proof (cases "LF \<in> set (avail br)")
  case True
  then obtain pre post where split: "avail br = pre @ LF # post" "LF \<notin> set pre"
    by (rule split_at_first)
  show ?thesis
  proof (cases "length pre < maxLineRead")
    case True
    then have "readLine_loop [] br = (Inr (pre @ [LF]), br\<lparr>avail := post\<rparr>)"
      using readLine_loop_line [of br pre post "[]"] split by simp
    with True split show ?thesis
      by (simp add: readLine_def readLine_spec_def line_test)
  next
    case False
    then have "readLine_loop [] br = (Inl LineTooLong, br\<lparr>avail := drop maxLineRead (avail br)\<rparr>)"
      using split by (subst readLine_loop_long) (auto simp: maxLineRead_def bufSize_def dest: in_set_takeD)
    with False split show ?thesis by (simp add: readLine_def readLine_spec_def)
  qed
next
  case False
  note tw = takeWhile_neq_all [OF False]
  show ?thesis
  proof (cases "maxLineRead \<le> length (avail br)")
    case True
    then have "readLine_loop [] br = (Inl LineTooLong, br\<lparr>avail := drop maxLineRead (avail br)\<rparr>)"
      using False by (subst readLine_loop_long) (auto simp: maxLineRead_def bufSize_def dest: in_set_takeD)
    with True show ?thesis by (simp add: readLine_def readLine_spec_def tw)
  next
    case short: False
    then have "readLine_loop [] br = (Inl (IOErr (rerr br)), br\<lparr>avail := []\<rparr>)"
      using False by (subst readLine_loop_ends) simp_all
    with short show ?thesis by (simp add: readLine_def readLine_spec_def tw)
  qed
qed

text \<open>A successful read is exactly a line at the front of the stream.\<close>

lemma readLine_Inr_iff:
  "readLine br = (Inr l, br') \<longleftrightarrow>
     resp_line l \<and> avail br = l @ avail br' \<and> br' = br\<lparr>avail := avail br'\<rparr>"
proof
  assume ok: "readLine br = (Inr l, br')"
  then have "resp_line l"
    by (auto simp: readLine_closed readLine_spec_def Let_def split: if_splits)
  with readLine_ok [OF ok] show "resp_line l \<and> avail br = l @ avail br' \<and> br' = br\<lparr>avail := avail br'\<rparr>"
    by blast
next
  assume a: "resp_line l \<and> avail br = l @ avail br' \<and> br' = br\<lparr>avail := avail br'\<rparr>"
  then have l: "butlast l @ [LF] = l"
    by (cases l rule: rev_cases) (auto simp: resp_line_def)
  with a have av: "avail br = butlast l @ LF # avail br'"
    by (metis append.assoc append_Cons append_Nil)
  have tw: "takeWhile (\<lambda>c. c \<noteq> LF) (avail br) = butlast l"
    unfolding av using a by (intro takeWhile_neq_append) (simp add: resp_line_def)
  have "length (butlast l) < length (avail br)" "length l \<le> maxLineRead"
    using a by (simp_all add: av resp_line_def)
  then show "readLine br = (Inr l, br')"
    unfolding readLine_closed readLine_spec_def Let_def tw l using a by auto
qed

lemmas readLine_lineI = readLine_Inr_iff [THEN iffD2]

lemma readLine_line [simp]:
  "resp_line l \<Longrightarrow> avail br = l @ rest \<Longrightarrow> readLine br = (Inr l, br\<lparr>avail := rest\<rparr>)"
  by (rule readLine_lineI) simp

section \<open>Commands\<close>

lemma header_line:
  assumes "t \<noteq> LF" "n < 2 ^ 63"
  shows "resp_line (t # itoa n @ CRLF)" "line_payload (t # itoa n @ CRLF) = itoa n"
proof -
  have "length (itoa n) \<le> 19" using assms(2) by (intro length_itoa_le) simp_all
  moreover have "LF \<notin> set (itoa n)" using itoa_digits [of LF n] by auto
  moreover have "0 < length (itoa n)" by simp
  ultimately show "resp_line (t # itoa n @ CRLF)" "line_payload (t # itoa n @ CRLF) = itoa n"
    using assms(1) by (auto simp: resp_line_def maxLineRead_def bufSize_def butlast_append
        line_payload_def Suc_le_eq)
qed

lemma parseRESPInt_itoa [simp]: "n < 2 ^ 63 \<Longrightarrow> parseRESPInt (itoa n) = Inr (int n)"
  by (simp add: parseRESPInt_def ParseInt_itoa)

lemma readCommand_loop_enc:
  assumes "list_all (\<lambda>a. int (length a) \<le> maxBulkLen) args"
    "avail br = concat (map enc_bulk args) @ rest"
  shows "readCommand_loop uni (length args) i name raw br =
    (Inr (if i = 0 \<and> args \<noteq> [] then ToUpper uni (hd args) else name,
          raw @ concat (map enc_bulk args)), br\<lparr>avail := rest\<rparr>)"
  using assms
proof (induction args arbitrary: i name raw br)
  case Nil
  then show ?case by (cases br) simp
next
  case (Cons a args)
  let ?line = "CHR ''$'' # itoa (length a) @ CRLF"
  have small: "length a < 2 ^ 63" using Cons.prems(1) by (simp add: maxBulkLen_def)
  have av: "avail br = ?line @ (a @ CRLF) @ concat (map enc_bulk args) @ rest"
    using Cons.prems(2) by (simp add: enc_bulk_def [of a])
  have line: "readLine br = (Inr ?line, br\<lparr>avail := (a @ CRLF) @ concat (map enc_bulk args) @ rest\<rparr>)"
    using header_line(1) [of "CHR ''$''" "length a"] small av by (intro readLine_line) auto
  show ?case
    using Cons small line header_line(2) [of "CHR ''$''" "length a"]
    by (simp add: ReadFull_append [of "a @ CRLF"] nat_add_distrib enc_bulk_def [of a])
qed

lemma readCommand_enc:
  assumes "wf_command args" "avail br = enc_command args @ rest"
  shows "readCommand uni br =
    (Inr (ToUpper uni (hd args), enc_command args), br\<lparr>avail := rest\<rparr>)"
proof -
  let ?line = "CHR ''*'' # itoa (length args) @ CRLF"
  have small: "length args < 2 ^ 63" using assms(1) by (simp add: wf_command_def maxRESPElements_def)
  have av: "avail br = ?line @ concat (map enc_bulk args) @ rest"
    using assms(2) by (simp add: enc_command_def)
  have "readLine br = (Inr ?line, br\<lparr>avail := concat (map enc_bulk args) @ rest\<rparr>)"
    using header_line(1) [of "CHR ''*''" "length args"] small av by (intro readLine_line) auto
  then show ?thesis
    using assms small header_line(2) [of "CHR ''*''" "length args"]
    by (simp add: readCommand_def Peek1_def wf_command_def readCommand_loop_enc enc_command_def)
qed

text \<open>The raw bytes of a command are exactly what was consumed, and they are bounded.\<close>

definition maxArgRead :: nat where "maxArgRead = maxLineRead + nat maxBulkLen + 2"

lemma readCommand_loop_raw:
  "readCommand_loop uni k i name raw br = (Inr (name', raw'), br') \<Longrightarrow>
     raw @ avail br = raw' @ avail br' \<and> br' = br\<lparr>avail := avail br'\<rparr> \<and>
     length raw \<le> length raw' \<and> length raw' \<le> length raw + k * maxArgRead"
proof (induction k arbitrary: i name raw br)
  case 0
  then show ?case by auto
next
  case (Suc k)
  then obtain line br1 l p br2 where steps: "readLine br = (Inr line, br1)"
    "\<not> (l < 0 \<or> maxBulkLen < l)" "ReadFull (nat (l + 2)) br1 = (Inr p, br2)"
    and rest: "readCommand_loop uni k (Suc i)
      (if i = 0 then ToUpper uni (take (nat l) p) else name) (raw @ line @ p) br2 =
      (Inr (name', raw'), br')"
    by (auto split: prod.splits sum.splits if_splits)
  have "length line \<le> maxLineRead"
    using steps(1) by (simp add: readLine_Inr_iff resp_line_def)
  moreover have "length p \<le> nat maxBulkLen + 2"
    using steps(2) ReadFull_ok [OF steps(3)] by auto
  ultimately have "length (line @ p) \<le> maxArgRead" by (simp add: maxArgRead_def)
  with Suc.IH [OF rest] ReadFull_ok [OF steps(3)] readLine_ok [OF steps(1)] show ?case
    by (cases br; cases br1; cases br2) auto
qed

lemma readCommand_raw:
  assumes "readCommand uni br = (Inr (name, raw), br')"
  shows "avail br = raw @ avail br'" "br' = br\<lparr>avail := avail br'\<rparr>" "3 \<le> length raw"
    "length raw \<le> maxLineRead + nat maxRESPElements * maxArgRead" "raw ! 0 = CHR ''*''"
proof -
  from assms obtain line br1 n where steps: "avail br \<noteq> []" "avail br ! 0 = CHR ''*''"
    "readLine br = (Inr line, br1)"
    "\<not> maxRESPElements < n" "readCommand_loop uni (nat n) 0 [] line br1 = (Inr (name, raw), br')"
    by (auto simp: readCommand_def Peek1_def split: list.splits sum.splits prod.splits if_splits)
  note loop = readCommand_loop_raw [OF steps(5)] and line = readLine_ok [OF steps(3)]
  have "length line \<le> maxLineRead"
    using steps(3) by (simp add: readLine_Inr_iff resp_line_def)
  moreover have "nat n * maxArgRead \<le> nat maxRESPElements * maxArgRead"
    using steps(4) by (intro mult_right_mono) auto
  ultimately show "length raw \<le> maxLineRead + nat maxRESPElements * maxArgRead"
    using loop by linarith
  show "avail br = raw @ avail br'" using loop line by simp
  show "br' = br\<lparr>avail := avail br'\<rparr>" using loop line by (cases br; cases br1) auto
  show "3 \<le> length raw" using loop line by linarith
  then show "raw ! 0 = CHR ''*''"
    using \<open>avail br = raw @ avail br'\<close> steps(1,2) by (cases raw) simp_all
qed

lemma readCommand_shrinks:
  "readCommand uni br = (Inr (name, raw), br') \<Longrightarrow> length (avail br') < length (avail br)"
  using readCommand_raw(1,3) by fastforce

text \<open>The errors of the lines never are the inline marker, which alone peeks.\<close>

lemma readLine_not_inline: "readLine br \<noteq> (Inl InlineCommand, br')"
  by (auto simp: readLine_closed readLine_spec_def Let_def split: if_splits)

lemma readCommand_loop_not_inline:
  "readCommand_loop uni k i name raw br \<noteq> (Inl InlineCommand, br')"
  by (induction k arbitrary: i name raw br)
    (auto simp: parseRESPInt_def readLine_not_inline split: prod.splits sum.splits if_splits)

lemma readCommand_inline:
  "readCommand uni br = (Inl InlineCommand, br') \<Longrightarrow> br' = br"
  by (auto simp: readCommand_def parseRESPInt_def readLine_not_inline readCommand_loop_not_inline
      split: prod.splits sum.splits if_splits)

section \<open>Replies\<close>

text \<open>Whatever happens, what is written is a prefix of the stream, in order.\<close>

definition copies :: "conn \<Rightarrow> reader \<Rightarrow> conn \<Rightarrow> reader \<Rightarrow> bool" where
  "copies w br w' br' \<longleftrightarrow>
     (\<exists>out lost. written w' = written w @ out \<and> avail br = out @ lost @ avail br')"

lemma copies_refl [simp]: "copies w br w br"
  by (simp add: copies_def)

lemma copies_write:
  assumes "conn_write b w = (e, w')" "avail br = b @ avail br'"
  shows "copies w br w' br'"
proof -
  obtain p where "prefix p b" "written w' = written w @ p"
    using conn_write_appends [OF assms(1)] by blast
  then show ?thesis using assms(2) by (auto simp: copies_def prefix_def)
qed

lemma copies_trans:
  assumes "written w1 = written w @ b" "avail br = b @ avail br1" "copies w1 br1 w2 br2"
  shows "copies w br w2 br2"
  using assms by (fastforce simp: copies_def)

lemma CopyN_copies: "CopyN w br n = (e, w', br') \<Longrightarrow> copies w br w' br'"
  by (auto simp: CopyN_def Let_def split: prod.splits option.splits intro!: copies_write)

lemma CopyN_ok:
  "CopyN w br n = (None, w', br') \<Longrightarrow>
     \<exists>p. length p = n \<and> written w' = written w @ p \<and> avail br = p @ avail br' \<and>
       br' = br\<lparr>avail := avail br'\<rparr>"
  by (intro exI [of _ "take n (avail br)"])
    (auto simp: CopyN_def Let_def not_less split: prod.splits option.splits if_splits dest: conn_write_ok)

lemma copyRESP_switch_other:
  assumes "t \<notin> set blob_types" "copyRESP_switch t payload remaining w br = (res, w', br')"
  shows "w' = w \<and> br' = br"
  using assms
  unfolding copyRESP_switch_def copyRESP_aggregate_def copyRESP_map_def copyRESP_attribute_def
    copyRESP_push_def
  by (auto split: if_splits sum.splits)

lemma copyRESP_blob_copies:
  "copyRESP_blob payload remaining w br = (res, w', br') \<Longrightarrow>
     copies w br w' br' \<and>
     (\<forall>m. res = Inr m \<longrightarrow> (\<exists>p. written w' = written w @ p \<and> avail br = p @ avail br' \<and>
        br' = br\<lparr>avail := avail br'\<rparr>))"
  by (auto simp: copyRESP_blob_def split: if_splits sum.splits prod.splits option.splits
      dest: CopyN_copies CopyN_ok)

lemma copyRESP_switch_copies:
  assumes "copyRESP_switch t payload remaining w br = (res, w', br')"
  shows "copies w br w' br'"
    "res = Inr m \<Longrightarrow> \<exists>p. written w' = written w @ p \<and> avail br = p @ avail br' \<and>
       br' = br\<lparr>avail := avail br'\<rparr>"
proof -
  have "copies w br w' br' \<and> (\<forall>m. res = Inr m \<longrightarrow>
    (\<exists>p. written w' = written w @ p \<and> avail br = p @ avail br' \<and> br' = br\<lparr>avail := avail br'\<rparr>))"
  proof (cases "t \<in> set blob_types")
    case True
    then have "t \<notin> set line_types" by (auto simp: blob_types_def line_types_def)
    with True assms show ?thesis by (simp add: copyRESP_switch_def copyRESP_blob_copies)
  next
    case False
    from copyRESP_switch_other [OF this assms] show ?thesis by simp
  qed
  then show "copies w br w' br'"
    "res = Inr m \<Longrightarrow> \<exists>p. written w' = written w @ p \<and> avail br = p @ avail br' \<and>
       br' = br\<lparr>avail := avail br'\<rparr>" by blast+
qed

lemma readLine_suffix:
  "readLine br = (res, br') \<Longrightarrow> \<exists>lost. avail br = lost @ avail br'"
  by (intro exI [of _ "take (length (avail br) - length (avail br')) (avail br)"])
    (auto simp: readLine_closed readLine_spec_def Let_def split: if_splits)

lemma copyRESP_loop_copies:
  "copyRESP_loop remaining w br = (e, w', br') \<Longrightarrow> copies w br w' br'"
proof (induction remaining w br rule: copyRESP_loop.induct)
  case (1 remaining w br)
  obtain res br1 where read: "readLine br = (res, br1)" by fastforce
  show ?case
  proof (cases "0 < remaining \<and> (\<exists>line. res = Inr line)")
    case False
    then show ?thesis
      using "1.prems" read readLine_suffix [OF read]
      by (cases res) (auto simp: copyRESP_loop.simps [of remaining] copies_def split: if_splits)
  next
    case True
    then obtain line where line: "readLine br = (Inr line, br1)" "0 < remaining" using read by blast
    obtain e1 w1 where wr: "conn_write line w = (e1, w1)" by fastforce
    note av = readLine_ok [OF line(1)]
    show ?thesis
    proof (cases e1)
      case (Some err)
      then show ?thesis
        using "1.prems" line wr av copies_write [OF wr, of br br1]
        by (simp add: copyRESP_loop.simps [of remaining])
    next
      case None
      obtain r2 w2 br2 where sw:
        "copyRESP_switch (line ! 0) (line_payload line) remaining w1 br1 = (r2, w2, br2)"
        by (metis prod_cases3)
      have step: "copies w br w2 br2"
        using copies_trans [OF _ _ copyRESP_switch_copies(1) [OF sw], of w line br] None wr av
        by (simp add: conn_write_ok)
      show ?thesis
      proof (cases r2)
        case (Inl err)
        then show ?thesis
          using "1.prems" line wr None sw step by (simp add: copyRESP_loop.simps [of remaining])
      next
        case (Inr m)
        then have "copyRESP_loop m w2 br2 = (e, w', br')"
          using "1.prems" line wr None sw by (simp add: copyRESP_loop.simps [of remaining])
        then have "copies w2 br2 w' br'"
          using "1.IH" line wr None sw Inr by simp
        moreover obtain p where "written w2 = written w1 @ p" "avail br1 = p @ avail br2"
          using copyRESP_switch_copies(2) [OF sw Inr] by blast
        moreover have "written w1 = written w @ line" using wr None by (simp add: conn_write_ok)
        ultimately show ?thesis
          using av by (intro copies_trans [of w2 w "line @ p" br br2]) simp_all
      qed
    qed
  qed
qed

subsection \<open>Every reply of the grammar is copied, and nothing beyond it\<close>

lemma resp_value_length: "resp_value v \<Longrightarrow> 3 \<le> length v"
  and resp_values_length: "resp_values k bs \<Longrightarrow> 3 * k \<le> length bs"
  by (induction rule: resp_value_resp_values.inducts) (auto simp: header_def resp_line_def)

lemma type_disjoint:
  "t \<in> set blob_types \<Longrightarrow> t \<notin> set line_types"
  "t \<in> set agg_types \<Longrightarrow> t \<notin> set line_types \<and> t \<notin> set blob_types"
  "CHR ''%'' \<notin> set line_types \<and> CHR ''%'' \<notin> set blob_types \<and> CHR ''%'' \<notin> set agg_types"
  "CHR ''|'' \<notin> set line_types \<and> CHR ''|'' \<notin> set blob_types \<and> CHR ''|'' \<notin> set agg_types"
  "CHR ''>'' \<notin> set line_types \<and> CHR ''>'' \<notin> set blob_types \<and> CHR ''>'' \<notin> set agg_types"
  by (auto simp: blob_types_def line_types_def agg_types_def)

lemmas switch_defs = copyRESP_switch_def copyRESP_blob_def copyRESP_aggregate_def
  copyRESP_map_def copyRESP_attribute_def copyRESP_push_def parseRESPInt_def

lemma copyRESP_loop_line:
  assumes "resp_line l" "avail br = l @ rest" "budget w = None" "0 < remaining"
    "copyRESP_switch (l ! 0) (line_payload l) remaining
       (w\<lparr>written := written w @ l\<rparr>) (br\<lparr>avail := rest\<rparr>) = (Inr m, w2, br2)"
  shows "copyRESP_loop remaining w br = copyRESP_loop m w2 br2"
  using assms by (simp add: copyRESP_loop.simps [of remaining])

lemma int64_small: "0 \<le> x \<Longrightarrow> x < 2 ^ 63 \<Longrightarrow> int64 x = x"
  by (simp add: in_int64_def)

text \<open>One turn of the loop for each kind of value, with \<open>j\<close> values awaited behind it.\<close>

abbreviation put :: "conn \<Rightarrow> bytes \<Rightarrow> conn" where
  "put w b \<equiv> w\<lparr>written := written w @ b\<rparr>"

lemma copyRESP_loop_simple:
  assumes "resp_line l" "l ! 0 \<in> set line_types" "avail br = l @ rest" "budget w = None"
    "0 \<le> j" "j < 2 ^ 63"
  shows "copyRESP_loop (j + 1) w br = copyRESP_loop j (put w l) (br\<lparr>avail := rest\<rparr>)"
  using assms by (intro copyRESP_loop_line) (auto simp: switch_defs int64_small)

lemma copyRESP_loop_null:
  assumes "header blob_types n l" "n < 0" "avail br = l @ rest" "budget w = None"
    "0 \<le> j" "j < 2 ^ 63"
  shows "copyRESP_loop (j + 1) w br = copyRESP_loop j (put w l) (br\<lparr>avail := rest\<rparr>)"
  using assms
  by (intro copyRESP_loop_line)
    (auto simp: switch_defs header_def type_disjoint int64_small maxBulkLen_def)

lemma copyRESP_loop_blob:
  assumes "header blob_types n l" "0 \<le> n" "n \<le> maxBulkLen" "length p = nat n + 2"
    "avail br = l @ p @ rest" "budget w = None" "0 \<le> j" "j < 2 ^ 63"
  shows "copyRESP_loop (j + 1) w br = copyRESP_loop j (put w (l @ p)) (br\<lparr>avail := rest\<rparr>)"
proof (rule copyRESP_loop_line)
  have "CopyN (put w l) (br\<lparr>avail := p @ rest\<rparr>) (nat (n + 2)) =
    (None, put w (l @ p), br\<lparr>avail := rest\<rparr>)"
    using assms by (simp add: CopyN_def nat_add_distrib)
  then show "copyRESP_switch (l ! 0) (line_payload l) (j + 1) (put w l) (br\<lparr>avail := p @ rest\<rparr>) =
    (Inr j, put w (l @ p), br\<lparr>avail := rest\<rparr>)"
    using assms by (auto simp: switch_defs header_def type_disjoint int64_small)
qed (use assms in \<open>auto simp: header_def\<close>)

lemma copyRESP_loop_aggregate:
  assumes "header agg_types n l" "n \<le> maxRESPElements" "avail br = l @ rest" "budget w = None"
    "0 \<le> j" "j + int (nat n) < 2 ^ 63"
  shows "copyRESP_loop (j + 1) w br = copyRESP_loop (j + int (nat n)) (put w l) (br\<lparr>avail := rest\<rparr>)"
  using assms
  by (intro copyRESP_loop_line) (auto simp: switch_defs header_def type_disjoint int64_small)

lemma copyRESP_loop_map:
  assumes "header ''%'' n l" "n \<le> maxRESPElements" "avail br = l @ rest" "budget w = None"
    "0 \<le> j" "j + int (2 * nat n) < 2 ^ 63"
  shows "copyRESP_loop (j + 1) w br = copyRESP_loop (j + int (2 * nat n)) (put w l) (br\<lparr>avail := rest\<rparr>)"
  using assms
  by (intro copyRESP_loop_line) (auto simp: switch_defs header_def type_disjoint int64_small)

lemma copyRESP_loop_attribute:
  assumes "header ''|'' n l" "n \<le> maxRESPElements" "avail br = l @ rest" "budget w = None"
    "0 < j" "j + int (2 * nat n) < 2 ^ 63"
  shows "copyRESP_loop j w br = copyRESP_loop (j + int (2 * nat n)) (put w l) (br\<lparr>avail := rest\<rparr>)"
  using assms
  by (intro copyRESP_loop_line) (auto simp: switch_defs header_def type_disjoint int64_small)

lemma copyRESP_loop_push:
  assumes "header ''>'' n l" "n \<le> maxRESPElements" "avail br = l @ rest" "budget w = None"
    "0 < j" "j + int (nat n) < 2 ^ 63"
  shows "copyRESP_loop j w br = copyRESP_loop (j + int (nat n)) (put w l) (br\<lparr>avail := rest\<rparr>)"
  using assms
  by (intro copyRESP_loop_line) (auto simp: switch_defs header_def type_disjoint int64_small)

lemma copyRESP_loop_value:
  "resp_value v \<Longrightarrow>
     avail br = v @ rest \<Longrightarrow> budget w = None \<Longrightarrow> 0 \<le> j \<Longrightarrow> j + int (length v) < 2 ^ 63 \<Longrightarrow>
     copyRESP_loop (j + 1) w br = copyRESP_loop j (put w v) (br\<lparr>avail := rest\<rparr>)"
  and copyRESP_loop_values:
  "resp_values k bs \<Longrightarrow>
     avail br = bs @ rest \<Longrightarrow> budget w = None \<Longrightarrow> 0 \<le> j \<Longrightarrow> j + int (length bs) < 2 ^ 63 \<Longrightarrow>
     copyRESP_loop (j + int k) w br = copyRESP_loop j (put w bs) (br\<lparr>avail := rest\<rparr>)"
proof (induction arbitrary: br rest w j and br rest w j rule: resp_value_resp_values.inducts)
  case (rv_aggregate n l bs)
  with resp_values_length [OF rv_aggregate.hyps(3)] show ?case
    using copyRESP_loop_aggregate [of n l br "bs @ rest" w j] by (simp del: int_nat_eq)
next
  case (rv_map n l bs)
  with resp_values_length [OF rv_map.hyps(3)] show ?case
    using copyRESP_loop_map [of n l br "bs @ rest" w j] by (simp del: int_nat_eq)
next
  case (rv_attribute n l bs v)
  note len = resp_values_length [OF rv_attribute.hyps(3)] resp_value_length [OF rv_attribute.hyps(4)]
  with rv_attribute show ?case
    using copyRESP_loop_attribute [of n l br "bs @ v @ rest" w "j + 1"]
      rv_attribute.IH(1) [of "br\<lparr>avail := bs @ v @ rest\<rparr>" "v @ rest" "put w l" "j + 1"] by (simp del: int_nat_eq)
next
  case (rv_push n l bs v)
  note len = resp_values_length [OF rv_push.hyps(3)] resp_value_length [OF rv_push.hyps(4)]
  with rv_push show ?case
    using copyRESP_loop_push [of n l br "bs @ v @ rest" w "j + 1"]
      rv_push.IH(1) [of "br\<lparr>avail := bs @ v @ rest\<rparr>" "v @ rest" "put w l" "j + 1"] by (simp del: int_nat_eq)
next
  case (rvs_Suc v k bs)
  with resp_values_length [OF rvs_Suc.hyps(2)] show ?case
    using rvs_Suc.IH(1) [of br "bs @ rest" w "j + int k"] by (simp add: algebra_simps)
qed (simp_all add: copyRESP_loop_simple copyRESP_loop_null copyRESP_loop_blob)

lemma copyRESP_value:
  assumes "resp_value v" "avail br = v @ rest" "budget w = None" "int (length v) < 2 ^ 63"
  shows "copyRESP w br = (None, put w v, br\<lparr>avail := rest\<rparr>)"
  using copyRESP_loop_value [OF assms(1-3), of 0] assms(4)
  by (simp add: copyRESP_def copyRESP_loop.simps [of 0])

subsection \<open>What is copied is a reply of the grammar\<close>

lemma resp_values_append:
  "resp_values (a + b) bs \<Longrightarrow> \<exists>bs1 bs2. bs = bs1 @ bs2 \<and> resp_values a bs1 \<and> resp_values b bs2"
proof (induction a arbitrary: bs)
  case 0
  then show ?case using rvs_0 by fastforce
next
  case (Suc a)
  from Suc.prems obtain v bs' where v: "resp_value v" "resp_values (a + b) bs'" "bs = v @ bs'"
    by (cases rule: resp_values.cases) auto
  with Suc.IH obtain bs1 bs2 where "bs' = bs1 @ bs2" "resp_values a bs1" "resp_values b bs2"
    by blast
  with v show ?case using rvs_Suc by (metis append.assoc)
qed

lemma resp_values_1 [simp]: "resp_values (Suc 0) v \<longleftrightarrow> resp_value v"
proof
  assume "resp_values (Suc 0) v"
  then show "resp_value v"
    by (cases rule: resp_values.cases) (auto elim: resp_values.cases)
next
  assume "resp_value v"
  then show "resp_values (Suc 0) v" using rvs_Suc [OF _ rvs_0] by simp
qed

text \<open>
  A turn of the loop that succeeds reads the front of a sequence of replies: if the
  replies it then awaits are there, so are the ones it awaited before.
\<close>

lemma resp_values_cons_count:
  assumes "resp_value v" "resp_values k bs" "0 < r" "nat (r - 1) = k"
  shows "resp_values (nat r) (v @ bs)"
proof -
  have "nat r = Suc k" using assms(3,4) by linarith
  then show ?thesis using rvs_Suc [OF assms(1,2)] by simp
qed

lemma copyRESP_switch_blob_sound:
  assumes line: "resp_line l" "l ! 0 \<in> set blob_types" "0 < r" "r < 2 ^ 62"
    and sw: "copyRESP_blob (line_payload l) r w br = (Inr m, w', br')"
  obtains p where "written w' = written w @ p" "avail br = p @ avail br'" "br' = br\<lparr>avail := avail br'\<rparr>"
    "m = r - 1" "resp_value (l @ p)"
proof -
  obtain n where n: "ParseInt (line_payload l) = Inr n" "n \<le> maxBulkLen" and m: "m = r - 1"
    using sw line(3,4) by (auto simp: copyRESP_blob_def parseRESPInt_def int64_small
        split: sum.splits if_splits prod.splits option.splits)
  then have h: "header blob_types n l" using line by (simp add: header_def)
  show thesis
  proof (cases "0 \<le> n")
    case True
    then have "CopyN w br (nat (n + 2)) = (None, w', br')"
      using sw n by (auto simp: copyRESP_blob_def parseRESPInt_def split: prod.splits option.splits)
    from CopyN_ok [OF this] obtain p where p: "length p = nat (n + 2)" "written w' = written w @ p"
      "avail br = p @ avail br'" "br' = br\<lparr>avail := avail br'\<rparr>" by blast
    then have "resp_value (l @ p)" using h True n(2) by (intro rv_blob) (simp_all add: nat_add_distrib)
    with p m show thesis using that by blast
  next
    case False
    then have "w' = w" "br' = br" using sw n by (auto simp: copyRESP_blob_def parseRESPInt_def)
    with h False m that [of "[]"] show thesis by (simp add: rv_null)
  qed
qed

lemma aggregate_count:
  assumes "header agg_types n l" "n \<le> maxRESPElements" "0 < r" "resp_values (nat n + nat (r - 1)) bs"
  shows "resp_values (nat r) (l @ bs)"
proof -
  obtain bs1 bs2 where bs: "bs = bs1 @ bs2" "resp_values (nat n) bs1" "resp_values (nat (r - 1)) bs2"
    using resp_values_append [OF assms(4)] by blast
  have "resp_value (l @ bs1)" by (rule rv_aggregate [OF assms(1,2) bs(2)])
  from resp_values_cons_count [OF this bs(3) assms(3) refl] show ?thesis using bs(1) by simp
qed

lemma map_count:
  assumes "header ''%'' n l" "n \<le> maxRESPElements" "0 < r" "resp_values (2 * nat n + nat (r - 1)) bs"
  shows "resp_values (nat r) (l @ bs)"
proof -
  obtain bs1 bs2 where bs: "bs = bs1 @ bs2" "resp_values (2 * nat n) bs1" "resp_values (nat (r - 1)) bs2"
    using resp_values_append [OF assms(4)] by blast
  have "resp_value (l @ bs1)" by (rule rv_map [OF assms(1,2) bs(2)])
  from resp_values_cons_count [OF this bs(3) assms(3) refl] show ?thesis using bs(1) by simp
qed

lemma before_value:
  assumes "resp_values (k + nat r) bs" "0 < r"
  obtains bs1 v bs2 where "bs = bs1 @ v @ bs2" "resp_values k bs1" "resp_value v"
    "resp_values (nat (r - 1)) bs2"
proof -
  obtain bs1 bs' where 1: "bs = bs1 @ bs'" "resp_values k bs1" "resp_values (1 + nat (r - 1)) bs'"
    using resp_values_append [OF assms(1)] assms(2) by (metis Suc_nat_eq_nat_zadd1 add.commute diff_add_cancel plus_1_eq_Suc zle_diff1_eq)
  obtain v bs2 where "bs' = v @ bs2" "resp_value v" "resp_values (nat (r - 1)) bs2"
    using resp_values_append [OF 1(3)] by auto
  with 1 that show thesis by blast
qed

lemma attribute_count:
  assumes "header ''|'' n l" "n \<le> maxRESPElements" "0 < r" "resp_values (2 * nat n + nat r) bs"
  shows "resp_values (nat r) (l @ bs)"
proof -
  obtain bs1 v bs2 where bs: "bs = bs1 @ v @ bs2" "resp_values (2 * nat n) bs1" "resp_value v"
    "resp_values (nat (r - 1)) bs2" using before_value [OF assms(4,3)] .
  have "resp_value (l @ bs1 @ v)" by (rule rv_attribute [OF assms(1,2) bs(2,3)])
  from resp_values_cons_count [OF this bs(4) assms(3) refl] show ?thesis using bs(1) by simp
qed

lemma push_count:
  assumes "header ''>'' n l" "n \<le> maxRESPElements" "0 < r" "resp_values (nat n + nat r) bs"
  shows "resp_values (nat r) (l @ bs)"
proof -
  obtain bs1 v bs2 where bs: "bs = bs1 @ v @ bs2" "resp_values (nat n) bs1" "resp_value v"
    "resp_values (nat (r - 1)) bs2" using before_value [OF assms(4,3)] .
  have "resp_value (l @ bs1 @ v)" by (rule rv_push [OF assms(1,2) bs(2,3)])
  from resp_values_cons_count [OF this bs(4) assms(3) refl] show ?thesis using bs(1) by simp
qed

text \<open>The counter after a turn that reads no payload, by the type of the line.\<close>

lemma copyRESP_switch_counter:
  assumes sw: "copyRESP_switch (l ! 0) (line_payload l) r w br = (Inr m, w', br')"
    and l: "resp_line l" "l ! 0 \<notin> set blob_types" and r: "0 < r" "r < 2 ^ 62"
  shows "0 \<le> m \<and> m \<le> r + 2 ^ 21 \<and> (\<forall>bs. resp_values (nat m) bs \<longrightarrow> resp_values (nat r) (l @ bs))"
proof (cases "l ! 0 \<in> set line_types")
  case True
  then have "m = r - 1" using sw r by (simp add: copyRESP_switch_def int64_small)
  moreover have "resp_value l" using l(1) True by (rule rv_simple)
  ultimately show ?thesis using r(1) resp_values_cons_count [of l] by auto
next
  case False
  with sw l(2) obtain n where n: "ParseInt (line_payload l) = Inr n" "n \<le> maxRESPElements"
    by (auto simp: switch_defs split: if_splits sum.splits)
  have small: "r + 2 * n < 2 ^ 63" "n \<le> 2 ^ 20"
    using n(2) r(2) by (simp_all add: maxRESPElements_def)
  consider (agg) "l ! 0 \<in> set agg_types" | (map) "l ! 0 = CHR ''%''"
    | (attr) "l ! 0 = CHR ''|''" | (push) "l ! 0 = CHR ''>''"
    using sw l(2) False by (auto simp: copyRESP_switch_def split: if_splits)
  then show ?thesis
  proof cases
    case agg
    then have "nat m = nat n + nat (r - 1)" "0 \<le> m" "m \<le> r + 2 ^ 21"
      using sw n False l(2) r small by (auto simp: switch_defs int64_small split: if_splits)
    then show ?thesis using aggregate_count [OF _ n(2) r(1)] agg l(1) n(1) by (simp add: header_def)
  next
    case map
    then have "nat m = 2 * nat n + nat (r - 1)" "0 \<le> m" "m \<le> r + 2 ^ 21"
      using sw n r small by (auto simp: switch_defs type_disjoint int64_small split: if_splits)
    then show ?thesis using map_count [OF _ n(2) r(1)] map l(1) n(1) by (simp add: header_def)
  next
    case attr
    then have "nat m = 2 * nat n + nat r" "0 \<le> m" "m \<le> r + 2 ^ 21"
      using sw n r small by (auto simp: switch_defs type_disjoint int64_small split: if_splits)
    then show ?thesis using attribute_count [OF _ n(2) r(1)] attr l(1) n(1) by (simp add: header_def)
  next
    case push
    then have "nat m = nat n + nat r" "0 \<le> m" "m \<le> r + 2 ^ 21"
      using sw n r small by (auto simp: switch_defs type_disjoint int64_small split: if_splits)
    then show ?thesis using push_count [OF _ n(2) r(1)] push l(1) n(1) by (simp add: header_def)
  qed
qed

lemma copyRESP_switch_sound:
  assumes sw: "copyRESP_switch (l ! 0) (line_payload l) r w br = (Inr m, w', br')"
    and l: "resp_line l" and r: "0 < r" "r < 2 ^ 62"
  obtains p where "written w' = written w @ p" "avail br = p @ avail br'" "0 \<le> m" "m \<le> r + 2 ^ 21"
    "\<And>bs. resp_values (nat m) bs \<Longrightarrow> resp_values (nat r) (l @ p @ bs)"
proof (cases "l ! 0 \<in> set blob_types")
  case True
  then have "copyRESP_blob (line_payload l) r w br = (Inr m, w', br')"
    using sw by (simp add: copyRESP_switch_def type_disjoint)
  then obtain p where p: "written w' = written w @ p" "avail br = p @ avail br'" "m = r - 1"
    "resp_value (l @ p)"
    using copyRESP_switch_blob_sound [OF l True r] by metis
  have "resp_values (nat r) (l @ p @ bs)" if "resp_values (nat m) bs" for bs
    using resp_values_cons_count [OF p(4) that r(1)] p(3) by simp
  with p r show thesis by (intro that [of p]) simp_all
next
  case False
  from copyRESP_switch_counter [OF sw l False r] copyRESP_switch_other [OF False sw]
  show thesis by (intro that [of "[]"]) auto
qed

lemma copyRESP_loop_sound:
  "copyRESP_loop r w br = (None, w', br') \<Longrightarrow> 0 \<le> r \<Longrightarrow>
     r + 2097152 * int (length (avail br) - length (avail br')) < 2 ^ 62 \<Longrightarrow>
     \<exists>bs. resp_values (nat r) bs \<and> written w' = written w @ bs \<and> avail br = bs @ avail br'"
proof (induction r w br rule: copyRESP_loop.induct)
  case (1 r w br)
  show ?case
  proof (cases "0 < r")
    case False
    then show ?thesis
      using "1.prems" rvs_0 by (intro exI [of _ "[]"]) (simp add: copyRESP_loop.simps [of 0])
  next
    case True
    then obtain l br1 w1 m w2 br2 where steps: "readLine br = (Inr l, br1)"
      "conn_write l w = (None, w1)"
      "copyRESP_switch (l ! 0) (line_payload l) r w1 br1 = (Inr m, w2, br2)"
      and loop: "copyRESP_loop m w2 br2 = (None, w', br')"
      using "1.prems"(1)
      by (auto simp: copyRESP_loop.simps [of r] split: prod.splits sum.splits option.splits)
    note l = readLine_ok [OF steps(1)] and line = steps(1) [unfolded readLine_Inr_iff]
    have r: "r < 2 ^ 62" using "1.prems"(3) by simp
    obtain p where p: "written w2 = written w1 @ p" "avail br1 = p @ avail br2" "0 \<le> m" "m \<le> r + 2 ^ 21"
      "\<And>bs. resp_values (nat m) bs \<Longrightarrow> resp_values (nat r) (l @ p @ bs)"
      using copyRESP_switch_sound [OF steps(3) _ True r] line by blast
    obtain out lost where "avail br2 = out @ lost @ avail br'"
      using copyRESP_loop_copies [OF loop] by (auto simp: copies_def)
    then have "Suc (length (avail br2) - length (avail br')) \<le> length (avail br) - length (avail br')"
      using l p(2) by simp
    then have "m + 2097152 * int (length (avail br2) - length (avail br')) < 2 ^ 62"
      using "1.prems"(3) p(4) by (simp del: of_nat_diff)
    with "1.IH" steps loop p(3) True obtain bs where bs: "resp_values (nat m) bs"
      "written w' = written w2 @ bs" "avail br2 = bs @ avail br'" by fastforce
    then show ?thesis
      using p l steps(2) by (intro exI [of _ "l @ p @ bs"]) (simp add: conn_write_ok)
  qed
qed

text \<open>The definitions, as rules that evaluate on a concrete stream.\<close>

lemmas resp_eval = readLine_closed readLine_spec_def resp_line_def maxLineRead_def bufSize_def
  copyRESP_def copyRESP_loop.simps switch_defs line_types_def blob_types_def agg_types_def
  line_payload_def ParseInt_def parseUint_def is_digit_def digit_val_def maxUint64_def
  CopyN_def conn_write_def maxBulkLen_def maxRESPElements_def int64_def new_conn_def
  readCommand_def Peek1_def ReadFull_def ToUpper_def is_ascii_def upper_char_def

section \<open>Properties\<close>

text \<open>
  C4. A reply is relayed exactly: for every reply \<open>v\<close> of the RESP grammar (nested
  aggregates, attributes and pushes included) at the front of the backend's stream,
  \<open>copyRESP\<close> succeeds, appends exactly the bytes of \<open>v\<close> to the client and leaves the
  stream at the first byte of the next reply.
\<close>

theorem copyRESP_relays_reply:
  assumes "resp_value v" "avail br = v @ rest" "budget w = None" "int (length v) < 2 ^ 63"
  shows "copyRESP w br = (None, w\<lparr>written := written w @ v\<rparr>, br\<lparr>avail := rest\<rparr>)"
  using copyRESP_value [OF assms] .

theorem copyRESP_relays_reply_witness:
  "copyRESP new_conn \<lparr>avail = ''+OK'' @ CRLF @ '':1'' @ CRLF, rerr = EOF\<rparr> =
     (None, new_conn\<lparr>written := ''+OK'' @ CRLF\<rparr>, \<lparr>avail = '':1'' @ CRLF, rerr = EOF\<rparr>)"
proof -
  have "resp_value (''+OK'' @ CRLF)"
    by (rule rv_simple) (simp_all add: resp_line_def line_types_def maxLineRead_def bufSize_def)
  from copyRESP_relays_reply [OF this, of "\<lparr>avail = ''+OK'' @ CRLF @ '':1'' @ CRLF, rerr = EOF\<rparr>"
      "'':1'' @ CRLF" new_conn]
  show ?thesis by (simp add: new_conn_def)
qed

text \<open>
  C15. Nothing but a reply is ever relayed as one: whenever \<open>copyRESP\<close> succeeds after
  consuming fewer than \<open>2 ^ 41\<close> bytes (two tebibytes, within which the counter cannot wrap
  around), what it consumed and what the client received are the same bytes and form one
  reply of the grammar.
\<close>

theorem copyRESP_only_replies:
  assumes "copyRESP w br = (None, w', br')" "length (avail br) - length (avail br') < 2 ^ 41"
  shows "\<exists>v. resp_value v \<and> written w' = written w @ v \<and> avail br = v @ avail br'"
proof -
  from assms(2) have "int (length (avail br) - length (avail br')) < 2 ^ 41" by simp
  then show ?thesis using copyRESP_loop_sound [of 1 w br w' br'] assms(1) by (simp add: copyRESP_def)
qed

theorem copyRESP_only_replies_witness:
  "fst (copyRESP new_conn \<lparr>avail = ''$2'' @ CRLF @ ''hi'' @ CRLF, rerr = EOF\<rparr>) = None \<and>
   (\<exists>v. resp_value v \<and> ''$2'' @ CRLF @ ''hi'' @ CRLF = v)"
proof -
  have run: "copyRESP new_conn \<lparr>avail = ''$2'' @ CRLF @ ''hi'' @ CRLF, rerr = EOF\<rparr> =
    (None, new_conn\<lparr>written := ''$2'' @ CRLF @ ''hi'' @ CRLF\<rparr>, \<lparr>avail = [], rerr = EOF\<rparr>)"
    by (simp add: resp_eval)
  from copyRESP_only_replies [OF run] run show ?thesis by (simp add: new_conn_def)
qed

text \<open>
  C25. Also when copying fails, at whatever point and for whatever reason (malformed or
  oversized reply, a backend that goes away, a client that stops reading), the client has
  received a prefix of the backend's bytes: nothing is reordered, repeated or made up.
\<close>

theorem copyRESP_forwards_prefix:
  assumes "copyRESP w br = (e, w', br')"
  shows "\<exists>out lost. written w' = written w @ out \<and> avail br = out @ lost @ avail br'"
  using copyRESP_loop_copies [of 1 w br] assms by (simp add: copyRESP_def copies_def)

theorem copyRESP_forwards_prefix_witness:
  "fst (copyRESP new_conn \<lparr>avail = ''$5'' @ CRLF @ ''hel'', rerr = EOF\<rparr>) = Some (IOErr EOF) \<and>
   (\<exists>out lost. ''$5'' @ CRLF @ ''hel'' = out \<and> ''$5'' @ CRLF @ ''hel'' = out @ lost @ [])"
proof -
  have run: "copyRESP new_conn \<lparr>avail = ''$5'' @ CRLF @ ''hel'', rerr = EOF\<rparr> =
    (Some (IOErr EOF), new_conn\<lparr>written := ''$5'' @ CRLF @ ''hel''\<rparr>, \<lparr>avail = [], rerr = EOF\<rparr>)"
    by (simp add: resp_eval)
  from copyRESP_forwards_prefix [OF run] run show ?thesis by (simp add: new_conn_def)
qed

text \<open>
  C17. A command written in the RESP encoding is read back: the session gets the
  uppercased first argument as the name and exactly the encoded bytes to forward, and the
  stream stands at the next command. The arguments may be any bytes, CR and LF included.
\<close>

theorem readCommand_roundtrip:
  assumes "wf_command args"
  shows "readCommand uni \<lparr>avail = enc_command args @ rest, rerr = e\<rparr> =
    (Inr (ToUpper uni (hd args), enc_command args), \<lparr>avail = rest, rerr = e\<rparr>)"
  using readCommand_enc [OF assms, of "\<lparr>avail = enc_command args @ rest, rerr = e\<rparr>" rest uni] by simp

theorem readCommand_roundtrip_witness:
  "readCommand (\<lambda>s. s) \<lparr>avail = enc_command [''get'', CRLF] @ ''*'', rerr = EOF\<rparr> =
    (Inr (''GET'', enc_command [''get'', CRLF]), \<lparr>avail = ''*'', rerr = EOF\<rparr>)"
proof -
  have "wf_command [''get'', CRLF]"
    by (simp add: wf_command_def maxRESPElements_def maxBulkLen_def)
  from readCommand_roundtrip [OF this, of "\<lambda>s. s" "''*''" EOF] show ?thesis
    by (simp add: ToUpper_def is_ascii_def upper_char_def char_of_eq_iff take_bit_nat_def)
qed

text \<open>
  C36. Whatever a client sends, the bytes a successful \<open>readCommand\<close> hands on for
  forwarding are exactly the bytes it consumed, they start an array, and their number is
  bounded by the protocol limits.
\<close>

theorem readCommand_transparent:
  assumes "readCommand uni br = (Inr (name, raw), br')"
  shows "avail br = raw @ avail br' \<and> rerr br' = rerr br \<and> raw ! 0 = CHR ''*'' \<and> 3 \<le> length raw \<and>
    length raw \<le> maxLineRead + nat maxRESPElements * maxArgRead"
  using readCommand_raw [OF assms] by (metis reader.select_convs(2) reader.surjective reader.update_convs(1))

theorem readCommand_transparent_witness:
  "fst (readCommand (\<lambda>s. s) \<lparr>avail = ''*1'' @ CRLF @ ''$4'' @ CRLF @ ''PINGxx*'', rerr = EOF\<rparr>) =
     Inr (''PING'', ''*1'' @ CRLF @ ''$4'' @ CRLF @ ''PINGxx'') \<and>
   length (''*1'' @ CRLF @ ''$4'' @ CRLF @ ''PINGxx'') \<le> maxLineRead + nat maxRESPElements * maxArgRead"
proof -
  have run: "readCommand (\<lambda>s. s) \<lparr>avail = ''*1'' @ CRLF @ ''$4'' @ CRLF @ ''PINGxx*'', rerr = EOF\<rparr> =
    (Inr (''PING'', ''*1'' @ CRLF @ ''$4'' @ CRLF @ ''PINGxx''), \<lparr>avail = ''*'', rerr = EOF\<rparr>)"
    by (simp add: resp_eval numeral_2_eq_2 [symmetric])
  from readCommand_transparent [OF run] run show ?thesis by simp
qed

text \<open>
  C37. \<open>readLine\<close> succeeds on exactly the lines at the front of the stream that end in
  CR LF, have at least one byte before it and contain no earlier LF, up to a length of
  seventeen buffers (69632 bytes), however the bytes arrive in buffers.
\<close>

theorem readLine_accepts_lines:
  "readLine br = (Inr l, br') \<longleftrightarrow>
     (3 \<le> length l \<and> length l \<le> 69632 \<and> drop (length l - 2) l = CRLF \<and> LF \<notin> set (butlast l)) \<and>
     avail br = l @ avail br' \<and> rerr br' = rerr br"
proof -
  have "(br' = br\<lparr>avail := avail br'\<rparr>) = (rerr br' = rerr br)" by (cases br; cases br') auto
  then show ?thesis by (simp add: readLine_Inr_iff resp_line_def maxLineRead_def bufSize_def)
qed

text \<open>
  The limit \<open>maxLineLen\<close> (65536 bytes) is not what \<open>readLine\<close> enforces: it tests the
  length only after a full buffer, so a line of 65537 to 69632 bytes is accepted.
\<close>

theorem readLine_over_limit:
  assumes "0 < n" "n \<le> 69630"
  shows "readLine \<lparr>avail = replicate n (CHR ''x'') @ CRLF, rerr = e\<rparr> =
    (Inr (replicate n (CHR ''x'') @ CRLF), \<lparr>avail = [], rerr = e\<rparr>)"
  using assms
  by (intro readLine_lineI)
    (auto simp: resp_line_def maxLineRead_def bufSize_def butlast_append)

theorem readLine_over_limit_witness:
  "maxLineLen < int (length (replicate 65535 (CHR ''x'') @ CRLF)) \<and>
   readLine \<lparr>avail = replicate 65535 (CHR ''x'') @ CRLF, rerr = EOF\<rparr> =
    (Inr (replicate 65535 (CHR ''x'') @ CRLF), \<lparr>avail = [], rerr = EOF\<rparr>)"
proof
  show "maxLineLen < int (length (replicate 65535 (CHR ''x'') @ CRLF))"
    by (simp add: maxLineLen_def)
  show "readLine \<lparr>avail = replicate 65535 (CHR ''x'') @ CRLF, rerr = EOF\<rparr> =
    (Inr (replicate 65535 (CHR ''x'') @ CRLF), \<lparr>avail = [], rerr = EOF\<rparr>)"
    by (rule readLine_over_limit) simp_all
qed

end
