(* ===== verification/Session.thy ===== *)
theory Session
  imports Router Resp
begin

text \<open>
  \<open>pkg/proxy/routing.go\<close>, the routed session: its state, the command loop \<open>run\<close>,
  \<open>stateCommand\<close> and \<open>pin\<close>, with the \<open>pipe\<close> of \<open>proxy.go\<close> into which a pinned session
  degrades. The session owns three connections; each has a write side (what the proxy
  sent there) and a read side (what the peer will send). Every network failure is a
  possible outcome: a stream may end at any byte with any error and a connection may stop
  accepting bytes at any point.
\<close>

section \<open>Definitions\<close>

definition stateCommands :: "string list" where
  "stateCommands = [''AUTH'', ''HELLO'', ''SELECT'', ''RESET'', ''CLIENT'']"

definition pinCommands :: "string list" where
  "pinCommands =
    [''SUBSCRIBE'', ''PSUBSCRIBE'', ''SSUBSCRIBE'',
     ''UNSUBSCRIBE'', ''PUNSUBSCRIBE'', ''SUNSUBSCRIBE'',
     ''MULTI'', ''WATCH'', ''MONITOR'']"

text \<open>
  The session. \<open>replica\<close> is the nil-able connection of the source; \<open>dropped\<close> remembers
  the connection \<open>pin\<close> closed before it set the field to nil, so that what was sent there
  can still be spoken of. \<open>reads\<close> and \<open>writes\<close> are \<open>int64\<close> counters.
\<close>

record routedSession =
  client :: conn
  clientR :: reader
  master :: conn
  masterR :: reader
  replica :: "conn option"
  replicaR :: reader
  dropped :: "conn option"
  reads :: int
  writes :: int

datatype session_error =
    ReadFailed resp_error             \<comment> \<open>\<open>readCommand\<close> failed: the client left or spoke no RESP\<close>
  | ForwardFailed string resp_error   \<comment> \<open>a backend did not take the command\<close>
  | RelayFailed string resp_error     \<comment> \<open>a reply could not be relayed\<close>
  | PinFailed io_error                \<comment> \<open>the pinning command could not be forwarded\<close>
  | PinEnded                          \<comment> \<open>both pipes of a pinned session ended\<close>

text \<open>
  \<open>pipe(w, r)\<close>: copy until the stream ends, then close the write side (a connection of
  the proxy is TCP or TLS and has \<open>CloseWrite\<close>).
\<close>

definition pipe :: "conn \<Rightarrow> reader \<Rightarrow> io_error option \<times> conn \<times> reader" where
  "pipe w r = (case Copy w r of (e, w', r') \<Rightarrow> (e, CloseWrite w', r'))"

text \<open>
  \<open>pin(raw)\<close>. The two pipes run concurrently on disjoint data (client stream to master,
  master stream to client), so their order is irrelevant.
\<close>

definition pin :: "bytes option \<Rightarrow> routedSession \<Rightarrow> session_error \<times> routedSession" where
  "pin raw s =
     (let s1 = (case replica s of
                  None \<Rightarrow> s
                | Some r \<Rightarrow> s\<lparr>replica := None, dropped := Some (Close r)\<rparr>)
      in case (case raw of None \<Rightarrow> (None, master s1) | Some b \<Rightarrow> conn_write b (master s1)) of
           (Some e, m) \<Rightarrow> (PinFailed e, s1\<lparr>master := m\<rparr>)
         | (None, m) \<Rightarrow>
             (case pipe (client s1) (masterR s1) of (_, c', mr') \<Rightarrow>
                (case pipe m (clientR s1) of (_, m', cr') \<Rightarrow>
                   (PinEnded, s1\<lparr>client := c', masterR := mr', master := m', clientR := cr'\<rparr>))))"

definition stateCommand :: "bytes \<Rightarrow> routedSession \<Rightarrow> resp_error option \<times> routedSession" where
  "stateCommand raw s =
     (case conn_write raw (master s) of
        (Some e, m) \<Rightarrow> (Some (IOErr e), s\<lparr>master := m\<rparr>)
      | (None, m) \<Rightarrow>
          (let s1 = s\<lparr>master := m\<rparr>;
               wr = (case replica s1 of
                       None \<Rightarrow> (None, s1)
                     | Some r \<Rightarrow> (case conn_write raw r of (e, r') \<Rightarrow> (e, s1\<lparr>replica := Some r'\<rparr>)))
           in case wr of
                (Some e, s2) \<Rightarrow> (Some (IOErr e), s2)
              | (None, s2) \<Rightarrow>
                  (case copyRESP (client s2) (masterR s2) of
                     (Some e, c, mr) \<Rightarrow> (Some e, s2\<lparr>client := c, masterR := mr\<rparr>)
                   | (None, c, mr) \<Rightarrow>
                       (let s3 = s2\<lparr>client := c, masterR := mr\<rparr>
                        in case replica s3 of
                             None \<Rightarrow> (None, s3)
                           | Some r \<Rightarrow>
                               (case copyRESP io_Discard (replicaR s3) of
                                  (e, _, rr) \<Rightarrow> (e, s3\<lparr>replicaR := rr\<rparr>))))))"

text \<open>
  The tail of the loop body of \<open>run\<close>: choose the backend, count, forward the command and
  relay the reply.
\<close>

definition route ::
  "(string \<Rightarrow> string) \<Rightarrow> string \<Rightarrow> bytes \<Rightarrow> routedSession \<Rightarrow> session_error option \<times> routedSession" where
  "route uni name raw s =
     (case (if GetDirection uni name = Read then replica s else None) of
        Some r \<Rightarrow>
          (let s1 = s\<lparr>reads := int64 (reads s + 1)\<rparr>
           in case conn_write raw r of
                (Some e, r') \<Rightarrow> (Some (ForwardFailed name (IOErr e)), s1\<lparr>replica := Some r'\<rparr>)
              | (None, r') \<Rightarrow>
                  (case copyRESP (client s1) (replicaR s1) of
                     (e, c, rr) \<Rightarrow>
                       (map_option (RelayFailed name) e,
                        s1\<lparr>replica := Some r', client := c, replicaR := rr\<rparr>)))
      | None \<Rightarrow>
          (let s1 = s\<lparr>writes := int64 (writes s + 1)\<rparr>
           in case conn_write raw (master s1) of
                (Some e, m) \<Rightarrow> (Some (ForwardFailed name (IOErr e)), s1\<lparr>master := m\<rparr>)
              | (None, m) \<Rightarrow>
                  (case copyRESP (client s1) (masterR s1) of
                     (e, c, mr) \<Rightarrow>
                       (map_option (RelayFailed name) e,
                        s1\<lparr>master := m, client := c, masterR := mr\<rparr>))))"

subsection \<open>The command loop\<close>

text \<open>Only \<open>readCommand\<close> consumes the client's stream, so the loop terminates.\<close>

lemma stateCommand_frame [frame_simps]:
  assumes "stateCommand raw s = (e, s')"
  shows "clientR s' = clientR s" "dropped s' = dropped s" "reads s' = reads s" "writes s' = writes s"
    "(replica s' = None) = (replica s = None)"
  using assms by (auto simp: stateCommand_def Let_def split: prod.splits option.splits)

lemma route_frame [frame_simps]:
  assumes "route uni name raw s = (e, s')"
  shows "clientR s' = clientR s" "dropped s' = dropped s" "(replica s' = None) = (replica s = None)"
  using assms by (auto simp: route_def Let_def split: prod.splits option.splits if_splits)

function run :: "(string \<Rightarrow> string) \<Rightarrow> routedSession \<Rightarrow> session_error \<times> routedSession" where
  "run uni s =
     (case readCommand uni (clientR s) of
        (Inl e, br) \<Rightarrow>
          (let s1 = s\<lparr>clientR := br\<rparr>
           in if e = InlineCommand then pin None s1 else (ReadFailed e, s1))
      | (Inr (name, raw), br) \<Rightarrow>
          (let s1 = s\<lparr>clientR := br\<rparr>
           in if name = [] then run uni s1
              else if name \<in> set pinCommands then pin (Some raw) s1
              else if name \<in> set stateCommands then
                (case stateCommand raw s1 of
                   (Some e, s2) \<Rightarrow> (ForwardFailed name e, s2)
                 | (None, s2) \<Rightarrow> run uni s2)
              else
                (case route uni name raw s1 of
                   (Some e, s2) \<Rightarrow> (e, s2)
                 | (None, s2) \<Rightarrow> run uni s2)))"
  by pat_completeness auto
termination
  by (relation "measure (\<lambda>(uni, s). length (avail (clientR s)))")
    (auto dest!: readCommand_shrinks [OF sym] simp: frame_simps [OF sym])

declare run.simps [simp del]

section \<open>What a session owes its peers\<close>

text \<open>
  The commands in a client's stream, up to the first one that cannot be read or that
  pins the session, and the bytes behind them that a pinned session pipes through.
\<close>

function commands :: "(string \<Rightarrow> string) \<Rightarrow> reader \<Rightarrow> (string \<times> bytes) list" where
  "commands uni br =
     (case readCommand uni br of
        (Inl e, br') \<Rightarrow> []
      | (Inr (name, raw), br') \<Rightarrow>
          (name, raw) # (if name \<in> set pinCommands then [] else commands uni br'))"
  by pat_completeness auto
termination
  by (relation "measure (\<lambda>(uni, br). length (avail br))") (auto dest!: readCommand_shrinks [OF sym])

function piped :: "(string \<Rightarrow> string) \<Rightarrow> reader \<Rightarrow> bytes" where
  "piped uni br =
     (case readCommand uni br of
        (Inl e, br') \<Rightarrow> if e = InlineCommand then avail br' else []
      | (Inr (name, raw), br') \<Rightarrow>
          if name \<in> set pinCommands then avail br' else piped uni br')"
  by pat_completeness auto
termination
  by (relation "measure (\<lambda>(uni, br). length (avail br))") (auto dest!: readCommand_shrinks [OF sym])

declare commands.simps [simp del] piped.simps [simp del]

text \<open>Which backends get a command; \<open>has\<close> says whether there is a replica.\<close>

definition to_replica :: "(string \<Rightarrow> string) \<Rightarrow> string \<times> bytes \<Rightarrow> bool" where
  "to_replica uni = (\<lambda>(name, raw). name \<noteq> [] \<and> name \<notin> set pinCommands \<and>
     (name \<in> set stateCommands \<or> GetDirection uni name = Read))"

definition to_master :: "(string \<Rightarrow> string) \<Rightarrow> bool \<Rightarrow> string \<times> bytes \<Rightarrow> bool" where
  "to_master uni has = (\<lambda>(name, raw). name \<noteq> [] \<and>
     (name \<in> set pinCommands \<or> name \<in> set stateCommands \<or> \<not> (has \<and> GetDirection uni name = Read)))"

definition replica_sent :: "routedSession \<Rightarrow> bytes" where
  "replica_sent s =
     (case replica s of Some r \<Rightarrow> written r
      | None \<Rightarrow> (case dropped s of Some r \<Rightarrow> written r | None \<Rightarrow> []))"

definition owed_replica :: "(string \<Rightarrow> string) \<Rightarrow> reader \<Rightarrow> bytes" where
  "owed_replica uni br = concat (map snd (filter (to_replica uni) (commands uni br)))"

definition owed_master :: "(string \<Rightarrow> string) \<Rightarrow> bool \<Rightarrow> reader \<Rightarrow> bytes" where
  "owed_master uni has br =
     concat (map snd (filter (to_master uni has) (commands uni br))) @ piped uni br"

section \<open>Facts\<close>

lemma Copy_prefix: "Copy w r = (e, w', r') \<Longrightarrow> \<exists>p. prefix p (avail r) \<and> written w' = written w @ p"
  by (auto simp: Copy_def split: prod.splits option.splits dest: conn_write_appends)

lemma pipe_prefix: "pipe w r = (e, w', r') \<Longrightarrow> \<exists>p. prefix p (avail r) \<and> written w' = written w @ p"
  by (auto simp: pipe_def CloseWrite_def split: prod.splits dest: Copy_prefix)

text \<open>A prefix of what is owed, after something already sent.\<close>

definition sent_upto :: "bytes \<Rightarrow> bytes \<Rightarrow> bytes \<Rightarrow> bool" where
  "sent_upto before owed after \<longleftrightarrow> (\<exists>p. prefix p owed \<and> after = before @ p)"

lemma sent_upto_refl [simp]: "sent_upto b owed b"
  by (simp add: sent_upto_def)

lemma sent_upto_step: "sent_upto (b @ x) owed a \<Longrightarrow> sent_upto b (x @ owed) a"
  by (auto simp: sent_upto_def)

lemma sent_upto_write:
  "conn_write b w = (e, w') \<Longrightarrow> sent_upto (written w) (b @ owed) (written w')"
  unfolding sent_upto_def using conn_write_appends by (metis prefix_prefix)

subsection \<open>One command\<close>

lemma replica_sent_clientR [simp]: "replica_sent (s\<lparr>clientR := br\<rparr>) = replica_sent s"
  by (simp add: replica_sent_def cong: option.case_cong)

lemma pin_replica:
  assumes "pin raw s = (e, s')"
  shows "replica s' = None"
    "dropped s' = (case replica s of None \<Rightarrow> dropped s | Some r \<Rightarrow> Some (Close r))"
    "reads s' = reads s" "writes s' = writes s"
  using assms by (auto simp: pin_def Let_def split: prod.splits option.splits)

lemma pin_replica_sent: "pin raw s = (e, s') \<Longrightarrow> replica_sent s' = replica_sent s"
  by (simp add: replica_sent_def pin_replica Close_def split: option.splits)

lemma pin_master:
  assumes "pin raw s = (e, s')"
  shows "sent_upto (written (master s)) (case_option [] id raw @ avail (clientR s)) (written (master s'))"
proof -
  obtain e1 m where wr: "(case raw of None \<Rightarrow> (None, master s) | Some b \<Rightarrow> conn_write b (master s)) = (e1, m)"
    by fastforce
  have m: "sent_upto (written (master s)) (case_option [] id raw @ rest) (written m)" for rest
    using wr by (cases raw) (auto simp: sent_upto_write)
  show ?thesis
  proof (cases e1)
    case (Some err)
    then show ?thesis using assms wr m
      by (auto simp: pin_def Let_def split: option.splits prod.splits)
  next
    case None
    obtain e2 m' cr where pipe: "pipe m (clientR s) = (e2, m', cr)" by (metis prod_cases3)
    have "written m = written (master s) @ case_option [] id raw"
      using wr None by (cases raw) (auto dest: conn_write_ok)
    moreover have "written (master s') = written m'"
      using assms wr None pipe by (auto simp: pin_def Let_def split: option.splits prod.splits)
    ultimately show ?thesis
      using pipe_prefix [OF pipe] by (auto simp: sent_upto_def)
  qed
qed

lemma stateCommand_master:
  assumes "stateCommand raw s = (e, s')"
  shows "sent_upto (written (master s)) (raw @ rest) (written (master s'))"
    "e = None \<Longrightarrow> written (master s') = written (master s) @ raw"
  using assms
  by (auto simp: stateCommand_def Let_def split: prod.splits option.splits
      intro: sent_upto_write dest: conn_write_ok)

lemma stateCommand_replica:
  assumes "stateCommand raw s = (e, s')" "replica s = Some r"
  shows "sent_upto (replica_sent s) (raw @ rest) (replica_sent s')"
    "e = None \<Longrightarrow> replica_sent s' = replica_sent s @ raw"
  using assms
  by (auto simp: stateCommand_def Let_def replica_sent_def split: prod.splits option.splits
      intro: sent_upto_write dest: conn_write_ok)

lemma route_master:
  assumes "route uni name raw s = (e, s')"
  shows "\<not> (replica s \<noteq> None \<and> GetDirection uni name = Read) \<Longrightarrow>
      sent_upto (written (master s)) (raw @ rest) (written (master s'))"
    "\<not> (replica s \<noteq> None \<and> GetDirection uni name = Read) \<Longrightarrow> e = None \<Longrightarrow>
      written (master s') = written (master s) @ raw"
    "replica s \<noteq> None \<Longrightarrow> GetDirection uni name = Read \<Longrightarrow> master s' = master s"
  using assms
  by (auto simp: route_def Let_def split: prod.splits option.splits if_splits
      intro: sent_upto_write dest: conn_write_ok)

lemma route_replica:
  assumes "route uni name raw s = (e, s')" "replica s = Some r"
  shows "GetDirection uni name = Read \<Longrightarrow> sent_upto (replica_sent s) (raw @ rest) (replica_sent s')"
    "GetDirection uni name = Read \<Longrightarrow> e = None \<Longrightarrow> replica_sent s' = replica_sent s @ raw"
    "GetDirection uni name \<noteq> Read \<Longrightarrow> replica_sent s' = replica_sent s"
  using assms
  by (auto simp: route_def Let_def replica_sent_def split: prod.splits option.splits if_splits
      intro: sent_upto_write dest: conn_write_ok)

subsection \<open>The loop\<close>

text \<open>One turn of the loop, as a case rule.\<close>

lemma run_cases [consumes 1, case_names failed inline empty pin state_failed state route_failed route]:
  assumes "run uni s = (e, s')"
  obtains (failed) err br where "readCommand uni (clientR s) = (Inl err, br)" "err \<noteq> InlineCommand"
      "e = ReadFailed err" "s' = s\<lparr>clientR := br\<rparr>"
  | (inline) "readCommand uni (clientR s) = (Inl InlineCommand, clientR s)" "pin None s = (e, s')"
  | (empty) raw br where "readCommand uni (clientR s) = (Inr ([], raw), br)"
      "run uni (s\<lparr>clientR := br\<rparr>) = (e, s')"
  | (pin) name raw br where "readCommand uni (clientR s) = (Inr (name, raw), br)" "name \<noteq> []"
      "name \<in> set pinCommands" "pin (Some raw) (s\<lparr>clientR := br\<rparr>) = (e, s')"
  | (state_failed) name raw br err where "readCommand uni (clientR s) = (Inr (name, raw), br)"
      "name \<noteq> []" "name \<notin> set pinCommands" "name \<in> set stateCommands"
      "stateCommand raw (s\<lparr>clientR := br\<rparr>) = (Some err, s')" "e = ForwardFailed name err"
  | (state) name raw br s2 where "readCommand uni (clientR s) = (Inr (name, raw), br)"
      "name \<noteq> []" "name \<notin> set pinCommands" "name \<in> set stateCommands"
      "stateCommand raw (s\<lparr>clientR := br\<rparr>) = (None, s2)" "run uni s2 = (e, s')"
  | (route_failed) name raw br where "readCommand uni (clientR s) = (Inr (name, raw), br)"
      "name \<noteq> []" "name \<notin> set pinCommands" "name \<notin> set stateCommands"
      "route uni name raw (s\<lparr>clientR := br\<rparr>) = (Some e, s')"
  | (route) name raw br s2 where "readCommand uni (clientR s) = (Inr (name, raw), br)"
      "name \<noteq> []" "name \<notin> set pinCommands" "name \<notin> set stateCommands"
      "route uni name raw (s\<lparr>clientR := br\<rparr>) = (None, s2)" "run uni s2 = (e, s')"
proof -
  obtain res br where rc: "readCommand uni (clientR s) = (res, br)" by fastforce
  show thesis
  proof (cases res)
    case (Inl err)
    then show thesis
      using assms rc readCommand_inline [of uni "clientR s" br] failed inline
      by (auto simp: run.simps [of uni s] Let_def split: if_splits)
  next
    case (Inr cmd)
    then obtain name raw where cmd: "readCommand uni (clientR s) = (Inr (name, raw), br)"
      using rc by (cases cmd) auto
    show thesis
    proof (cases "name = [] \<or> name \<in> set pinCommands")
      case True
      then show thesis using assms cmd empty [of raw br] pin [of name raw br]
        by (auto simp: run.simps [of uni s] Let_def split: if_splits)
    next
      case False
      then show thesis
        using assms cmd state_failed [of name raw br] state [of name raw br]
          route_failed [of name raw br] route [of name raw br]
        by (auto simp: run.simps [of uni s] Let_def split: if_splits prod.splits option.splits)
    qed
  qed
qed

text \<open>A session without a replica connection never gets one.\<close>

lemma run_without_replica:
  assumes "run uni s = (e, s')" "replica s = None" "dropped s = None"
  shows "replica s' = None \<and> dropped s' = None"
  using assms
proof (induction "length (avail (clientR s))" arbitrary: s rule: less_induct)
  case less
  from less.prems(1) show ?case
  proof (cases rule: run_cases)
    case (empty raw br)
    with less.hyps [of "s\<lparr>clientR := br\<rparr>"] less.prems readCommand_shrinks [OF empty(1)] show ?thesis by simp
  next
    case (state name raw br s2)
    with less.hyps [of s2] less.prems stateCommand_frame [OF state(5)] readCommand_shrinks [OF state(1)]
    show ?thesis by simp
  next
    case (route name raw br s2)
    with less.hyps [of s2] less.prems route_frame [OF route(5)] readCommand_shrinks [OF route(1)]
    show ?thesis by simp
  next
    case (state_failed name raw br err)
    with less.prems stateCommand_frame [OF state_failed(5)] show ?thesis by simp
  next
    case (route_failed name raw br)
    with less.prems route_frame [OF route_failed(5)] show ?thesis by simp
  qed (use less.prems pin_replica in auto)
qed

lemma run_replica_sent:
  assumes "run uni s = (e, s')" "replica s = Some r"
  shows "sent_upto (replica_sent s) (owed_replica uni (clientR s)) (replica_sent s')"
  using assms
proof (induction "length (avail (clientR s))" arbitrary: s r rule: less_induct)
  case less
  note owed = owed_replica_def commands.simps [of uni "clientR s"]
  from less.prems(1) show ?case
  proof (cases rule: run_cases)
    case (failed err br)
    then show ?thesis by simp
  next
    case inline
    then show ?thesis by (simp add: pin_replica_sent)
  next
    case (empty raw br)
    then have "sent_upto (replica_sent s) (owed_replica uni br) (replica_sent s')"
      using less.hyps [of "s\<lparr>clientR := br\<rparr>" r] less.prems(2) readCommand_shrinks by simp
    with empty show ?thesis by (simp add: owed to_replica_def pinCommands_def)
  next
    case (pin name raw br)
    then show ?thesis by (simp add: pin_replica_sent)
  next
    case (state_failed name raw br err)
    with less.prems(2) show ?thesis
      using stateCommand_replica(1) [OF state_failed(5), of r]
      by (simp add: owed to_replica_def)
  next
    case (state name raw br s2)
    note fr = stateCommand_frame [OF state(5)]
    then obtain r2 where "replica s2 = Some r2" using less.prems(2) by auto
    then have "sent_upto (replica_sent s2) (owed_replica uni br) (replica_sent s')"
      using less.hyps [of s2 r2] state fr readCommand_shrinks by simp
    moreover have "replica_sent s2 = replica_sent s @ raw"
      using stateCommand_replica(2) [OF state(5), of r] less.prems(2) by simp
    ultimately show ?thesis
      using state by (simp add: owed to_replica_def sent_upto_step)
  next
    case (route_failed name raw br)
    then show ?thesis
      using route_replica [OF route_failed(5), of r] less.prems(2)
      by (cases "GetDirection uni name")
        (simp_all add: owed to_replica_def)
  next
    case (route name raw br s2)
    note fr = route_frame [OF route(5)]
    then obtain r2 where "replica s2 = Some r2" using less.prems(2) by auto
    then have "sent_upto (replica_sent s2) (owed_replica uni br) (replica_sent s')"
      using less.hyps [of s2 r2] route fr readCommand_shrinks by simp
    moreover have "replica_sent s2 = (if GetDirection uni name = Read then replica_sent s @ raw else replica_sent s)"
      using route_replica [OF route(5), of r] less.prems(2) by simp
    ultimately show ?thesis
      using route by (simp add: owed to_replica_def sent_upto_step split: if_splits)
  qed
qed

lemma run_master_sent:
  assumes "run uni s = (e, s')"
  shows "sent_upto (written (master s)) (owed_master uni (replica s \<noteq> None) (clientR s))
    (written (master s'))"
  using assms
proof (induction "length (avail (clientR s))" arbitrary: s rule: less_induct)
  case less
  note owed = owed_master_def commands.simps [of uni "clientR s"] piped.simps [of uni "clientR s"]
    to_master_def
  from less.prems(1) show ?case
  proof (cases rule: run_cases)
    case (failed err br)
    then show ?thesis by simp
  next
    case inline
    then show ?thesis using pin_master [of None s] by (simp add: owed)
  next
    case (empty raw br)
    then show ?thesis
      using less.hyps [of "s\<lparr>clientR := br\<rparr>"] readCommand_shrinks
      by (simp add: owed pinCommands_def)
  next
    case (pin name raw br)
    then show ?thesis using pin_master [OF pin(4)] by (simp add: owed)
  next
    case (state_failed name raw br err)
    then show ?thesis using stateCommand_master(1) [OF state_failed(5)] by (simp add: owed)
  next
    case (state name raw br s2)
    note fr = stateCommand_frame [OF state(5)]
    then have "sent_upto (written (master s2)) (owed_master uni (replica s \<noteq> None) br) (written (master s'))"
      using less.hyps [of s2] state readCommand_shrinks by simp
    then show ?thesis
      using stateCommand_master(2) [OF state(5)] state by (simp add: owed sent_upto_step)
  next
    case (route_failed name raw br)
    then show ?thesis
      using route_master [OF route_failed(5)]
      by (cases "replica s \<noteq> None \<and> GetDirection uni name = Read") (auto simp: owed)
  next
    case (route name raw br s2)
    note fr = route_frame [OF route(5)]
    then have IH: "sent_upto (written (master s2)) (owed_master uni (replica s \<noteq> None) br) (written (master s'))"
      using less.hyps [of s2] route readCommand_shrinks by simp
    show ?thesis
    proof (cases "replica s \<noteq> None \<and> GetDirection uni name = Read")
      case True
      with IH route show ?thesis using route_master(3) [OF route(5)] by (simp add: owed)
    next
      case False
      then have "written (master s2) = written (master s) @ raw"
        using route_master(2) [OF route(5)] by simp
      with False IH route show ?thesis by (auto simp: owed sent_upto_step)
    qed
  qed
qed

subsection \<open>Sessions in which nothing fails\<close>

text \<open>
  One exchange: the arguments the client sends, the reply of the backend that serves the
  command, and (for a command that changes connection state) the reply the replica gives.
\<close>

record exchange =
  ex_args :: "bytes list"
  ex_reply :: bytes
  ex_replica_reply :: bytes

definition ex_name :: "(string \<Rightarrow> string) \<Rightarrow> exchange \<Rightarrow> string" where
  "ex_name uni x = ToUpper uni (hd (ex_args x))"

definition ex_cmd :: "(string \<Rightarrow> string) \<Rightarrow> exchange \<Rightarrow> string \<times> bytes" where
  "ex_cmd uni x = (ex_name uni x, enc_command (ex_args x))"

definition wf_exchange :: "(string \<Rightarrow> string) \<Rightarrow> exchange \<Rightarrow> bool" where
  "wf_exchange uni x \<longleftrightarrow> wf_command (ex_args x) \<and> ex_name uni x \<noteq> [] \<and>
     ex_name uni x \<notin> set pinCommands \<and>
     resp_value (ex_reply x) \<and> int (length (ex_reply x)) < 2 ^ 63 \<and>
     resp_value (ex_replica_reply x) \<and> int (length (ex_replica_reply x)) < 2 ^ 63"

text \<open>What the two backends answer over the whole session.\<close>

definition master_says :: "(string \<Rightarrow> string) \<Rightarrow> bool \<Rightarrow> exchange \<Rightarrow> bytes" where
  "master_says uni has x = (if to_master uni has (ex_cmd uni x) then ex_reply x else [])"

definition replica_says :: "(string \<Rightarrow> string) \<Rightarrow> exchange \<Rightarrow> bytes" where
  "replica_says uni x =
     (if ex_name uni x \<in> set stateCommands then ex_replica_reply x
      else if to_replica uni (ex_cmd uni x) then ex_reply x else [])"

text \<open>A session whose peers take everything: \<open>crin\<close>, \<open>mrin\<close> and \<open>rrin\<close> are what they send.\<close>

definition ready :: "routedSession \<Rightarrow> bytes \<Rightarrow> bytes \<Rightarrow> bytes \<Rightarrow> bool" where
  "ready s crin mrin rrin \<longleftrightarrow>
     budget (client s) = None \<and> budget (master s) = None \<and>
     (\<forall>r. replica s = Some r \<longrightarrow> budget r = None \<and> avail (replicaR s) = rrin) \<and>
     avail (clientR s) = crin \<and> avail (masterR s) = mrin"

definition advanced ::
  "(string \<Rightarrow> string) \<Rightarrow> exchange \<Rightarrow> routedSession \<Rightarrow> routedSession \<Rightarrow> bool" where
  "advanced uni x s s' \<longleftrightarrow>
     written (client s') = written (client s) @ ex_reply x \<and>
     written (master s') = written (master s) @
       (if to_master uni (replica s \<noteq> None) (ex_cmd uni x) then enc_command (ex_args x) else []) \<and>
     map_option written (replica s') = map_option (\<lambda>r. written r @
       (if to_replica uni (ex_cmd uni x) then enc_command (ex_args x) else [])) (replica s) \<and>
     dropped s' = dropped s \<and> rerr (clientR s') = rerr (clientR s)"

lemma run_state_exchange:
  assumes x: "wf_exchange uni x" "ex_name uni x \<in> set stateCommands"
    and s: "ready s (enc_command (ex_args x) @ crin) (ex_reply x @ mrin) (ex_replica_reply x @ rrin)"
  shows "\<exists>s'. run uni s = run uni s' \<and> ready s' crin mrin rrin \<and> advanced uni x s s'"
proof -
  let ?raw = "enc_command (ex_args x)"
  let ?s1 = "s\<lparr>clientR := (clientR s)\<lparr>avail := crin\<rparr>\<rparr>"
  have rc: "readCommand uni (clientR s) = (Inr (ex_name uni x, ?raw), (clientR s)\<lparr>avail := crin\<rparr>)"
    using readCommand_enc [of "ex_args x" "clientR s" crin uni] x s
    by (simp add: wf_exchange_def ready_def ex_name_def)
  have "copyRESP (client s) (masterR s) = (None, put (client s) (ex_reply x), (masterR s)\<lparr>avail := mrin\<rparr>)"
    using copyRESP_value [of "ex_reply x" "masterR s" mrin "client s"] x s
    by (simp add: wf_exchange_def ready_def)
  moreover have "replica s = Some r \<Longrightarrow> copyRESP io_Discard (replicaR s) =
    (None, put io_Discard (ex_replica_reply x), (replicaR s)\<lparr>avail := rrin\<rparr>)" for r
    using copyRESP_value [of "ex_replica_reply x" "replicaR s" rrin io_Discard] x s
    by (simp add: wf_exchange_def ready_def new_conn_def)
  ultimately obtain s2 where sc: "stateCommand ?raw ?s1 = (None, s2)"
    and s2: "ready s2 crin mrin rrin" "advanced uni x s s2"
    using s x
    by (cases "replica s")
      (auto simp: stateCommand_def ready_def advanced_def to_master_def to_replica_def ex_cmd_def
        wf_exchange_def Let_def)
  have "run uni s = run uni s2"
    using rc sc x by (simp add: run.simps [of uni s] wf_exchange_def Let_def)
  with s2 show ?thesis by blast
qed

lemma run_route_exchange:
  assumes x: "wf_exchange uni x" "ex_name uni x \<notin> set stateCommands"
    and s: "ready s (enc_command (ex_args x) @ crin)
      (master_says uni (replica s \<noteq> None) x @ mrin) (replica_says uni x @ rrin)"
  shows "\<exists>s'. run uni s = run uni s' \<and> ready s' crin mrin rrin \<and> advanced uni x s s'"
proof -
  let ?raw = "enc_command (ex_args x)" and ?name = "ex_name uni x"
  let ?s1 = "s\<lparr>clientR := (clientR s)\<lparr>avail := crin\<rparr>\<rparr>"
  have rc: "readCommand uni (clientR s) = (Inr (?name, ?raw), (clientR s)\<lparr>avail := crin\<rparr>)"
    using readCommand_enc [of "ex_args x" "clientR s" crin uni] x s
    by (simp add: wf_exchange_def ready_def ex_name_def)
  have copy: "avail br = ex_reply x @ rest \<Longrightarrow>
    copyRESP (client s) br = (None, put (client s) (ex_reply x), br\<lparr>avail := rest\<rparr>)" for br rest
    using copyRESP_value [of "ex_reply x" br rest "client s"] x s
    by (simp add: wf_exchange_def ready_def)
  obtain s2 where rt: "route uni ?name ?raw ?s1 = (None, s2)"
    and s2: "ready s2 crin mrin rrin" "advanced uni x s s2"
  proof (cases "replica s \<noteq> None \<and> GetDirection uni ?name = Read")
    case True
    then have "to_replica uni (ex_cmd uni x)" "\<not> to_master uni True (ex_cmd uni x)"
      using x by (auto simp: to_replica_def to_master_def ex_cmd_def wf_exchange_def)
    then show thesis
      using True s x copy [of "replicaR s" rrin] that
      by (auto simp: route_def ready_def advanced_def Let_def master_says_def replica_says_def)
  next
    case False
    then have "to_master uni (replica s \<noteq> None) (ex_cmd uni x)"
      using x by (auto simp: to_master_def ex_cmd_def wf_exchange_def)
    moreover have "replica s \<noteq> None \<Longrightarrow> \<not> to_replica uni (ex_cmd uni x)"
      using False x by (auto simp: to_replica_def ex_cmd_def)
    ultimately show thesis
      using False s x copy [of "masterR s" mrin] that
      by (cases "replica s")
        (auto simp: route_def ready_def advanced_def Let_def master_says_def replica_says_def)
  qed
  have "run uni s = run uni s2"
    using rc rt x by (simp add: run.simps [of uni s] wf_exchange_def Let_def)
  with s2 show ?thesis by blast
qed

lemma run_exchange:
  assumes "wf_exchange uni x"
    and "ready s (enc_command (ex_args x) @ crin)
      (master_says uni (replica s \<noteq> None) x @ mrin) (replica_says uni x @ rrin)"
  shows "\<exists>s'. run uni s = run uni s' \<and> ready s' crin mrin rrin \<and> advanced uni x s s'"
proof (cases "ex_name uni x \<in> set stateCommands")
  case True
  then have "to_master uni (replica s \<noteq> None) (ex_cmd uni x)"
    using assms(1) by (simp add: to_master_def ex_cmd_def wf_exchange_def)
  with True assms show ?thesis
    by (intro run_state_exchange) (simp_all add: master_says_def replica_says_def)
next
  case False
  with assms show ?thesis by (intro run_route_exchange)
qed

lemma run_ends:
  assumes "avail (clientR s) = []"
  shows "run uni s = (ReadFailed (IOErr (rerr (clientR s))), s)"
  using assms by (simp add: run.simps [of uni s] readCommand_def Peek1_def)

abbreviation cmds_to :: "(string \<times> bytes \<Rightarrow> bool) \<Rightarrow> (string \<Rightarrow> string) \<Rightarrow> exchange list \<Rightarrow> bytes" where
  "cmds_to p uni xs \<equiv> concat (map (\<lambda>x. enc_command (ex_args x)) (filter (\<lambda>x. p (ex_cmd uni x)) xs))"

lemma run_exchanges:
  assumes "list_all (wf_exchange uni) xs" "has = (replica s \<noteq> None)"
    and "ready s (concat (map (\<lambda>x. enc_command (ex_args x)) xs))
      (concat (map (master_says uni has) xs) @ mrest) (concat (map (replica_says uni) xs) @ rrest)"
  shows "\<exists>s'. run uni s = (ReadFailed (IOErr (rerr (clientR s))), s') \<and>
    written (client s') = written (client s) @ concat (map ex_reply xs) \<and>
    written (master s') = written (master s) @ cmds_to (to_master uni has) uni xs \<and>
    map_option written (replica s') =
      map_option (\<lambda>r. written r @ cmds_to (to_replica uni) uni xs) (replica s) \<and>
    avail (masterR s') = mrest \<and> (has \<longrightarrow> avail (replicaR s') = rrest)"
  using assms
proof (induction xs arbitrary: s)
  case Nil
  then show ?case
    by (intro exI [of _ s]) (auto simp: ready_def run_ends)
next
  case (Cons x xs)
  obtain s1 where s1: "run uni s = run uni s1" "advanced uni x s s1"
    "ready s1 (concat (map (\<lambda>x. enc_command (ex_args x)) xs))
      (concat (map (master_says uni has) xs) @ mrest) (concat (map (replica_says uni) xs) @ rrest)"
    using run_exchange [of uni x s "concat (map (\<lambda>x. enc_command (ex_args x)) xs)"
        "concat (map (master_says uni has) xs) @ mrest" "concat (map (replica_says uni) xs) @ rrest"]
      Cons.prems by auto
  have has: "has = (replica s1 \<noteq> None)"
    using s1(2) Cons.prems(2) by (cases "replica s"; cases "replica s1") (auto simp: advanced_def)
  from Cons.IH [OF _ has s1(3)] Cons.prems(1) obtain s' where s':
    "run uni s1 = (ReadFailed (IOErr (rerr (clientR s1))), s')"
    "written (client s') = written (client s1) @ concat (map ex_reply xs)"
    "written (master s') = written (master s1) @ cmds_to (to_master uni has) uni xs"
    "map_option written (replica s') =
      map_option (\<lambda>r. written r @ cmds_to (to_replica uni) uni xs) (replica s1)"
    "avail (masterR s') = mrest" "has \<longrightarrow> avail (replicaR s') = rrest"
    by auto
  then show ?case
    using s1(1,2) Cons.prems(2)
    by (intro exI [of _ s'], cases "replica s"; cases "replica s1") (auto simp: advanced_def)
qed

lemma pin_unlimited:
  assumes "budget (client s) = None" "budget (master s) = None"
  shows "pin raw s = (PinEnded, s\<lparr>replica := None,
    dropped := (case replica s of None \<Rightarrow> dropped s | Some r \<Rightarrow> Some (Close r)),
    client := CloseWrite (put (client s) (avail (masterR s))),
    masterR := (masterR s)\<lparr>avail := []\<rparr>,
    master := CloseWrite (put (master s) (case_option [] id raw @ avail (clientR s))),
    clientR := (clientR s)\<lparr>avail := []\<rparr>\<rparr>)"
  using assms
  by (cases raw; cases "replica s") (simp_all add: pin_def pipe_def Copy_def Let_def)

lemma commands_enc:
  "wf_command args \<Longrightarrow> commands uni \<lparr>avail = enc_command args @ rest, rerr = e\<rparr> =
     (ToUpper uni (hd args), enc_command args) #
     (if ToUpper uni (hd args) \<in> set pinCommands then [] else commands uni \<lparr>avail = rest, rerr = e\<rparr>)"
  by (subst commands.simps) (simp add: readCommand_enc [where rest = rest])

lemma piped_enc:
  "wf_command args \<Longrightarrow> piped uni \<lparr>avail = enc_command args @ rest, rerr = e\<rparr> =
     (if ToUpper uni (hd args) \<in> set pinCommands then rest else piped uni \<lparr>avail = rest, rerr = e\<rparr>)"
  by (subst piped.simps) (simp add: readCommand_enc [where rest = rest])

lemma commands_end [simp]: "commands uni \<lparr>avail = [], rerr = e\<rparr> = []" "piped uni \<lparr>avail = [], rerr = e\<rparr> = []"
  by (simp_all add: commands.simps piped.simps readCommand_def Peek1_def)

subsection \<open>A small session to evaluate\<close>

definition sample_session :: "bytes \<Rightarrow> bytes \<Rightarrow> bytes \<Rightarrow> routedSession" where
  "sample_session crin mrin rrin =
     \<lparr>client = new_conn, clientR = \<lparr>avail = crin, rerr = EOF\<rparr>,
      master = new_conn, masterR = \<lparr>avail = mrin, rerr = EOF\<rparr>,
      replica = Some new_conn, replicaR = \<lparr>avail = rrin, rerr = EOF\<rparr>,
      dropped = None, reads = 0, writes = 0\<rparr>"

lemma sample_names [simp]:
  "ToUpper uni ''GET'' = ''GET''" "ToUpper uni ''SET'' = ''SET''" "ToUpper uni ''SELECT'' = ''SELECT''"
  "ToUpper uni ''MULTI'' = ''MULTI''"
  by (simp_all add: ToUpper_def is_ascii_def upper_char_def)

lemma sample_wf [simp]:
  "wf_command [''GET'', ''k'']" "wf_command [''SET'', ''k'', ''v'']" "wf_command [''SELECT'', ''1'']"
  "wf_command [''MULTI'']" "wf_command [[]]"
  by (simp_all add: wf_command_def maxRESPElements_def maxBulkLen_def)

lemma sample_directions [simp]:
  "GetDirection uni ''GET'' = Read" "GetDirection uni ''SET'' = Write" "GetDirection uni ''SELECT'' = Read"
  by (simp_all add: GetDirection_def readOnlyCommands_def)

lemma sample_reply [simp]: "resp_value (''+OK'' @ CRLF)" "resp_value (''+v'' @ CRLF)"
  by (rule rv_simple; simp add: resp_line_def line_types_def maxLineRead_def bufSize_def)+

definition sample_exchanges :: "exchange list" where
  "sample_exchanges =
     [\<lparr>ex_args = [''GET'', ''k''], ex_reply = ''+v'' @ CRLF, ex_replica_reply = ''+OK'' @ CRLF\<rparr>,
      \<lparr>ex_args = [''SET'', ''k'', ''v''], ex_reply = ''+OK'' @ CRLF, ex_replica_reply = ''+OK'' @ CRLF\<rparr>,
      \<lparr>ex_args = [''SELECT'', ''1''], ex_reply = ''+OK'' @ CRLF, ex_replica_reply = ''+OK'' @ CRLF\<rparr>]"

lemmas sample_defs = sample_exchanges_def ex_name_def ex_cmd_def to_master_def to_replica_def
  pinCommands_def stateCommands_def

section \<open>Properties\<close>

text \<open>
  C1. A routed session in which no peer fails serves a whole pipeline of commands
  correctly: every command goes, byte for byte and in order, to exactly the backends it
  belongs to, and the client receives one reply per command, in the order of its commands
  and from the backend that served it, until the client closes. Without a replica the
  master serves everything.
\<close>

theorem routed_session_pipeline:
  assumes "list_all (wf_exchange uni) xs" "has = (replica s \<noteq> None)"
    and "ready s (concat (map (\<lambda>x. enc_command (ex_args x)) xs))
      (concat (map (master_says uni has) xs) @ mrest) (concat (map (replica_says uni) xs) @ rrest)"
  shows "\<exists>s'. run uni s = (ReadFailed (IOErr (rerr (clientR s))), s') \<and>
    written (client s') = written (client s) @ concat (map ex_reply xs) \<and>
    written (master s') = written (master s) @ cmds_to (to_master uni has) uni xs \<and>
    map_option written (replica s') =
      map_option (\<lambda>r. written r @ cmds_to (to_replica uni) uni xs) (replica s) \<and>
    avail (masterR s') = mrest \<and> (has \<longrightarrow> avail (replicaR s') = rrest)"
  using run_exchanges [OF assms] .

theorem routed_session_pipeline_witness:
  "\<exists>s'. run (\<lambda>s. s) (sample_session (concat (map (\<lambda>x. enc_command (ex_args x)) sample_exchanges))
      (''+OK'' @ CRLF @ ''+OK'' @ CRLF) (''+v'' @ CRLF @ ''+OK'' @ CRLF)) = (ReadFailed (IOErr EOF), s') \<and>
    written (client s') = ''+v'' @ CRLF @ ''+OK'' @ CRLF @ ''+OK'' @ CRLF \<and>
    written (master s') = enc_command [''SET'', ''k'', ''v''] @ enc_command [''SELECT'', ''1''] \<and>
    map_option written (replica s') = Some (enc_command [''GET'', ''k''] @ enc_command [''SELECT'', ''1''])"
proof -
  let ?s = "sample_session (concat (map (\<lambda>x. enc_command (ex_args x)) sample_exchanges))
      (''+OK'' @ CRLF @ ''+OK'' @ CRLF) (''+v'' @ CRLF @ ''+OK'' @ CRLF)"
  have wf: "list_all (wf_exchange (\<lambda>s. s)) sample_exchanges"
    using sample_reply by (simp add: sample_defs wf_exchange_def)
  have says: "concat (map (master_says (\<lambda>s. s) True) sample_exchanges) = ''+OK'' @ CRLF @ ''+OK'' @ CRLF"
    "concat (map (replica_says (\<lambda>s. s)) sample_exchanges) = ''+v'' @ CRLF @ ''+OK'' @ CRLF"
    by (simp_all add: sample_defs master_says_def replica_says_def)
  have "ready ?s (concat (map (\<lambda>x. enc_command (ex_args x)) sample_exchanges))
    (concat (map (master_says (\<lambda>s. s) True) sample_exchanges) @ [])
    (concat (map (replica_says (\<lambda>s. s)) sample_exchanges) @ [])"
    unfolding says by (simp add: ready_def sample_session_def new_conn_def)
  from routed_session_pipeline [OF wf _ this] show ?thesis
    by (auto simp: sample_session_def new_conn_def sample_defs)
qed

text \<open>
  C6. In every session, whatever the three peers do and wherever it fails, the replica is
  sent nothing but a prefix of the commands of the client that are read-only or change
  connection state, each whole and in order, and never anything after the session was
  pinned.
\<close>

theorem routed_replica_gets_reads_only:
  assumes "run uni s = (e, s')" "replica s = Some r"
  shows "\<exists>p. prefix p (concat (map snd (filter (to_replica uni) (commands uni (clientR s))))) \<and>
    replica_sent s' = written r @ p"
  using run_replica_sent [OF assms] assms(2)
  by (simp add: sent_upto_def owed_replica_def replica_sent_def [of s])

theorem routed_replica_gets_reads_only_witness:
  "\<exists>p. prefix p (enc_command [''GET'', ''k'']) \<and>
    replica_sent (snd (run (\<lambda>s. s) (sample_session
      (enc_command [''GET'', ''k''] @ enc_command [''SET'', ''k'', ''v'']) [] []))) = p"
proof -
  let ?s = "sample_session (enc_command [''GET'', ''k''] @ enc_command [''SET'', ''k'', ''v'']) [] []"
  have "run (\<lambda>s. s) ?s = (fst (run (\<lambda>s. s) ?s), snd (run (\<lambda>s. s) ?s))" "replica ?s = Some new_conn"
    by (simp_all add: sample_session_def)
  from routed_replica_gets_reads_only [OF this] show ?thesis
    using commands_enc [of "[''SET'', ''k'', ''v'']" "\<lambda>s. s" "[]" EOF]
    by (simp add: sample_session_def new_conn_def sample_defs commands_enc)
qed

text \<open>
  C9. In every session the master is sent nothing but a prefix of the commands that belong
  to it (every command that is not read-only, all of them without a replica), followed by
  the rest of the client's stream once the session is pinned: nothing is invented, repeated
  or reordered, and no write is skipped before a later one is sent.
\<close>

theorem routed_master_gets_writes_in_order:
  assumes "run uni s = (e, s')"
  shows "\<exists>p. prefix p (concat (map snd (filter (to_master uni (replica s \<noteq> None))
      (commands uni (clientR s)))) @ piped uni (clientR s)) \<and>
    written (master s') = written (master s) @ p"
  using run_master_sent [OF assms] by (simp add: sent_upto_def owed_master_def)

theorem routed_master_gets_writes_in_order_witness:
  "\<exists>p. prefix p (enc_command [''SET'', ''k'', ''v''] @ enc_command [''MULTI''] @ ''rest'') \<and>
    written (master (snd (run (\<lambda>s. s) (sample_session (enc_command [''GET'', ''k''] @
      enc_command [''SET'', ''k'', ''v''] @ enc_command [''MULTI''] @ ''rest'') [] [])))) = p"
proof -
  let ?s = "sample_session (enc_command [''GET'', ''k''] @ enc_command [''SET'', ''k'', ''v''] @
    enc_command [''MULTI''] @ ''rest'') [] []"
  have "run (\<lambda>s. s) ?s = (fst (run (\<lambda>s. s) ?s), snd (run (\<lambda>s. s) ?s))" by simp
  from routed_master_gets_writes_in_order [OF this] show ?thesis
    by (simp add: sample_session_def new_conn_def sample_defs commands_enc piped_enc)
qed

text \<open>
  C38. A pinning command (a subscription, a transaction, \<open>MONITOR\<close>) ends routing for good:
  the replica connection is closed, the command and every byte behind it go to the master,
  and every byte the master has not yet been answered with goes to the client.
\<close>

theorem pinned_session_is_a_pipe:
  assumes "readCommand uni (clientR s) = (Inr (name, raw), br)" "name \<in> set pinCommands"
    "budget (client s) = None" "budget (master s) = None"
  shows "\<exists>s'. run uni s = (PinEnded, s') \<and> replica s' = None \<and> replica_sent s' = replica_sent s \<and>
    (\<forall>r. replica s = Some r \<longrightarrow> dropped s' = Some (Close r)) \<and>
    written (master s') = written (master s) @ raw @ avail br \<and>
    written (client s') = written (client s) @ avail (masterR s)"
proof -
  have "name \<noteq> []" using assms(2) by (auto simp: pinCommands_def)
  then have "run uni s = pin (Some raw) (s\<lparr>clientR := br\<rparr>)"
    using assms by (simp add: run.simps [of uni s] Let_def)
  then show ?thesis
    using assms pin_unlimited [of "s\<lparr>clientR := br\<rparr>" "Some raw"]
      pin_replica_sent [of "Some raw" "s\<lparr>clientR := br\<rparr>"]
    by (auto simp: CloseWrite_def)
qed

theorem pinned_session_is_a_pipe_witness:
  "\<exists>s'. run (\<lambda>s. s) (sample_session (enc_command [''MULTI''] @ ''abc'') ''xyz'' []) = (PinEnded, s') \<and>
    replica s' = None \<and> dropped s' = Some (Close new_conn) \<and>
    written (master s') = enc_command [''MULTI''] @ ''abc'' \<and> written (client s') = ''xyz''"
proof -
  let ?s = "sample_session (enc_command [''MULTI''] @ ''abc'') ''xyz'' []"
  have "readCommand (\<lambda>s. s) (clientR ?s) =
    (Inr (''MULTI'', enc_command [''MULTI'']), (clientR ?s)\<lparr>avail := ''abc''\<rparr>)"
    using readCommand_enc [of "[''MULTI'']" "clientR ?s" "''abc''" "\<lambda>s. s"]
    by (simp add: sample_session_def)
  from pinned_session_is_a_pipe [OF this] show ?thesis
    by (auto simp: sample_session_def new_conn_def pinCommands_def)
qed

text \<open>
  A client that speaks the inline protocol is piped to the master without the loss of
  a byte: the bytes already examined are part of what is piped.
\<close>

theorem inline_client_is_piped:
  assumes "avail (clientR s) = c # rest" "c \<noteq> CHR ''*''"
    "budget (client s) = None" "budget (master s) = None"
  shows "\<exists>s'. run uni s = (PinEnded, s') \<and> replica s' = None \<and> replica_sent s' = replica_sent s \<and>
    written (master s') = written (master s) @ c # rest \<and>
    written (client s') = written (client s) @ avail (masterR s)"
proof -
  have "readCommand uni (clientR s) = (Inl InlineCommand, clientR s)"
    using assms by (simp add: readCommand_def Peek1_def)
  then have "run uni s = pin None s"
    by (simp add: run.simps [of uni s] Let_def)
  then show ?thesis
    using assms pin_unlimited [of s None] pin_replica_sent [of None s] by (auto simp: CloseWrite_def)
qed

theorem inline_client_is_piped_witness:
  "\<exists>s'. run (\<lambda>s. s) (sample_session (''PING'' @ CRLF) (''+PONG'' @ CRLF) []) = (PinEnded, s') \<and>
    replica s' = None \<and> written (master s') = ''PING'' @ CRLF \<and> written (client s') = ''+PONG'' @ CRLF"
  using inline_client_is_piped [of "sample_session (''PING'' @ CRLF) (''+PONG'' @ CRLF) []" "CHR ''P''"
      "''ING'' @ CRLF" "\<lambda>s. s"]
  by (auto simp: sample_session_def new_conn_def)

text \<open>
  A command whose name is the empty string is neither forwarded nor answered: the
  loop takes it for an empty array, although the client awaits a reply (redis itself
  answers it with an error).
\<close>

theorem empty_name_is_dropped:
  assumes "wf_command ([] # args)" "avail (clientR s) = enc_command ([] # args) @ rest"
  shows "run uni s = run uni (s\<lparr>clientR := (clientR s)\<lparr>avail := rest\<rparr>\<rparr>)"
  using readCommand_enc [OF assms, of uni]
  by (simp add: run.simps [of uni s] ToUpper_def Let_def)

theorem empty_name_is_dropped_witness:
  "run (\<lambda>s. s) (sample_session (enc_command [[]] @ []) ''-ERR'' []) = run (\<lambda>s. s) (sample_session [] ''-ERR'' []) \<and>
   written (client (snd (run (\<lambda>s. s) (sample_session (enc_command [[]] @ []) ''-ERR'' [])))) = []"
  using empty_name_is_dropped [of "[]" "sample_session (enc_command [[]] @ []) ''-ERR'' []" "[]" "\<lambda>s. s"]
  by (simp add: sample_session_def new_conn_def run_ends)

end
