(* ===== verification/Gonet.thy ===== *)
theory Gonet
  imports Golib
begin

text \<open>
  Package \<open>net\<close> of the Go standard library, as far as the resolver uses it: the syntax of IP
  addresses (\<open>net.ParseIP\<close>, which is \<open>netip.ParseAddr\<close> without zones, and
  \<open>IP.IsUnspecified\<close>), \<open>net.JoinHostPort\<close> and \<open>net.TCPAddr\<close>.
\<close>

section \<open>Definitions\<close>

subsection \<open>IP addresses\<close>

text \<open>
  \<open>parseIPv4Fields\<close>: the octets so far, the value and the number of digits of the
  current one. An octet is at most 255 and has no leading zero.
\<close>

fun parseIPv4Fields :: "nat list \<Rightarrow> nat \<Rightarrow> nat \<Rightarrow> string \<Rightarrow> nat list option" where
  "parseIPv4Fields fs v d [] = (if length fs < 3 then None else Some (fs @ [v]))"
| "parseIPv4Fields fs v d (c # s) =
     (if is_digit c then
        if d = 1 \<and> v = 0 then None
        else if 255 < v * 10 + digit_val c then None
        else parseIPv4Fields fs (v * 10 + digit_val c) (Suc d) s
      else if c = CHR ''.'' then
        if d = 0 \<or> s = [] then None
        else if length fs = 3 then None
        else parseIPv4Fields (fs @ [v]) 0 0 s
      else None)"

definition hex_val :: "char \<Rightarrow> nat option" where
  "hex_val c =
     (let n = (of_char c :: nat) in
      if 48 \<le> n \<and> n \<le> 57 then Some (n - 48)
      else if 97 \<le> n \<and> n \<le> 102 then Some (n - 97 + 10)
      else if 65 \<le> n \<and> n \<le> 70 then Some (n - 65 + 10)
      else None)"

definition is_hex :: "char \<Rightarrow> bool" where "is_hex c \<longleftrightarrow> hex_val c \<noteq> None"

definition hex_num :: "string \<Rightarrow> nat" where
  "hex_num ds = foldl (\<lambda>a c. a * 16 + (case hex_val c of None \<Rightarrow> 0 | Some d \<Rightarrow> d)) 0 ds"

text \<open>
  The group loop of \<open>parseIPv6\<close>: at most eight groups of two bytes; the position of the
  ellipsis; a trailing dotted quad. The result is the bytes, the ellipsis and the rest.
\<close>

fun parseIPv6_loop :: "nat \<Rightarrow> nat list \<Rightarrow> nat option \<Rightarrow> string \<Rightarrow> (nat list \<times> nat option \<times> string) option" where
  "parseIPv6_loop 0 ip ell s = Some (ip, ell, s)"
| "parseIPv6_loop (Suc k) ip ell s =
     (let ds = takeWhile is_hex s;
          rest = dropWhile is_hex s;
          ip' = ip @ [hex_num ds div 256, hex_num ds mod 256]
      in if 4 < length ds then None
         else if ds = [] then None
         else case rest of
           [] \<Rightarrow> Some (ip', ell, [])
         | c # r1 \<Rightarrow>
             if c = CHR ''.'' then
               if ell = None \<and> length ip \<noteq> 12 then None
               else if 16 < length ip + 4 then None
               else (case parseIPv4Fields [] 0 0 s of None \<Rightarrow> None | Some q \<Rightarrow> Some (ip @ q, ell, []))
             else if c \<noteq> CHR '':'' then None
             else (case r1 of
                [] \<Rightarrow> None
              | c1 # r2 \<Rightarrow>
                  if c1 = CHR '':'' then
                    if ell \<noteq> None then None
                    else if r2 = [] then Some (ip', Some (length ip'), [])
                    else parseIPv6_loop k ip' (Some (length ip')) r2
                  else parseIPv6_loop k ip' ell r1))"

text \<open>An address with a zone is refused by \<open>net.ParseIP\<close>, one with an empty zone by the parser.\<close>

definition parseIPv6 :: "string \<Rightarrow> nat list option" where
  "parseIPv6 s0 =
     (if CHR ''%'' \<in> set s0 then None
      else let lead = (take 2 s0 = ''::'');
               s = (if lead then drop 2 s0 else s0)
           in if lead \<and> s = [] then Some (replicate 16 0)
              else case parseIPv6_loop 8 [] (if lead then Some 0 else None) s of
                None \<Rightarrow> None
              | Some (ip, ell, rest) \<Rightarrow>
                  if rest \<noteq> [] then None
                  else if length ip < 16 then
                    (case ell of
                       None \<Rightarrow> None
                     | Some e \<Rightarrow> Some (take e ip @ replicate (16 - length ip) 0 @ drop e ip))
                  else if ell \<noteq> None then None
                  else Some ip)"

text \<open>\<open>net.ParseIP\<close>: the sixteen bytes; an IPv4 address is mapped.\<close>

definition v4_in_v6 :: "nat list \<Rightarrow> nat list" where
  "v4_in_v6 q = replicate 10 0 @ [255, 255] @ q"

definition ParseIP :: "string \<Rightarrow> nat list option" where
  "ParseIP s =
     (case dropWhile (\<lambda>c. c \<noteq> CHR ''.'' \<and> c \<noteq> CHR '':'' \<and> c \<noteq> CHR ''%'') s of
        [] \<Rightarrow> None
      | c # _ \<Rightarrow>
          if c = CHR ''.'' then map_option v4_in_v6 (parseIPv4Fields [] 0 0 s)
          else if c = CHR '':'' then parseIPv6 s
          else None)"

definition IsUnspecified :: "nat list \<Rightarrow> bool" where
  "IsUnspecified ip \<longleftrightarrow> ip = v4_in_v6 [0, 0, 0, 0] \<or> ip = replicate 16 0"

subsection \<open>Addresses with a port\<close>

definition JoinHostPort :: "string \<Rightarrow> string \<Rightarrow> string" where
  "JoinHostPort host port =
     (if CHR '':'' \<in> set host then ''['' @ host @ '']:'' @ port else host @ '':'' @ port)"

text \<open>A resolved TCP address: the text of its IP, the zone and the port.\<close>

record tcpAddr =
  aIP :: string
  aZone :: string
  aPort :: nat

definition TCPAddr_String :: "tcpAddr \<Rightarrow> string" where
  "TCPAddr_String a =
     JoinHostPort (if aZone a \<noteq> [] then aIP a @ ''%'' @ aZone a else aIP a) (itoa (aPort a))"

section \<open>Facts\<close>

lemmas parseIPv6_loop_numeral =
  parseIPv6_loop.simps(2) [of "pred_numeral k" for k, folded numeral_eq_Suc]

lemma replicate_numeral_Cons: "replicate (numeral k) x = x # replicate (pred_numeral k) x"
  by (simp add: numeral_eq_Suc)

lemmas ip_eval = ParseIP_def parseIPv6_def IsUnspecified_def v4_in_v6_def is_digit_def digit_val_def
  is_hex_def hex_val_def hex_num_def parseIPv6_loop_numeral replicate_numeral_Cons Let_def

text \<open>Spellings of the unspecified address that sentinel may announce, and addresses and
  names that are not.\<close>

lemma unspecified_spellings:
  "map_option IsUnspecified (ParseIP ''0.0.0.0'') = Some True"
  "map_option IsUnspecified (ParseIP ''::'') = Some True"
  "map_option IsUnspecified (ParseIP ''::0'') = Some True"
  "map_option IsUnspecified (ParseIP ''0:0:0:0:0:0:0:0'') = Some True"
  "map_option IsUnspecified (ParseIP ''::ffff:0.0.0.0'') = Some True"
  by (simp_all add: ip_eval)

lemma ordinary_hosts:
  "map_option IsUnspecified (ParseIP ''10.0.0.7'') = Some False"
  "map_option IsUnspecified (ParseIP ''fd00::1'') = Some False"
  "ParseIP ''redis-0'' = None" "ParseIP ''10.0.0'' = None" "ParseIP ''10.0.0.256'' = None"
  by (simp_all add: ip_eval)

end
