(* ===== verification/Config.thy ===== *)
theory Config
  imports Golib
begin

text \<open>
  \<open>pkg/config/config.go\<close>: the configuration, its built-in defaults and the merge that
  implements the precedence of the sources. A nil-able pointer field is an \<open>option\<close>. The
  sources share the pointed-to strings and numbers when they merge, but nothing ever writes
  through such a pointer, and the TLS sections are merged field by field into structs owned
  by the receiver, so values model them faithfully.

  The interface of the merge is the locale \<open>layered_settings\<close>: looking a setting up in a
  merge gives the left value if there is one, else the right one. Precedence of any stack
  of sources follows from that law alone.
\<close>

section \<open>Definitions\<close>

definition ReplicaFallbackMaster :: string where "ReplicaFallbackMaster = ''master''"
definition ReplicaFallbackReject :: string where "ReplicaFallbackReject = ''reject''"

record backendTLS =
  bEnabled :: "bool option"
  bCAFile :: "string option"
  bCertFile :: "string option"
  bKeyFile :: "string option"
  bServerName :: "string option"
  bSkipVerify :: "bool option"
  bPassthrough :: "bool option"

record listenTLS =
  lEnabled :: "bool option"
  lCertFile :: "string option"
  lKeyFile :: "string option"
  lClientCAFile :: "string option"

text \<open>
  The fields of \<open>tls.Config\<close> the sources set. A pool is the PEM text it was made from, a
  certificate the pair of its PEM texts; version 1.2 is the code 0x0303.
\<close>

record tlsConfig =
  tMinVersion :: nat
  tServerName :: string
  tInsecureSkipVerify :: bool
  tRootCAs :: "string option"
  tCertificates :: "(string \<times> string) list"
  tClientCAs :: "string option"
  tRequireClientCert :: bool

definition VersionTLS12 :: nat where "VersionTLS12 = 0x0303"

record resolvedTLS =
  rMaster :: "tlsConfig option"
  rMasterProbe :: "tlsConfig option"
  rSentinel :: "tlsConfig option"
  rListen :: "tlsConfig option"

text \<open>A duration is a number of nanoseconds.\<close>

type_synonym Duration = int

definition Second :: Duration where "Second = 1000000000"

record config =
  Listen :: "string option"
  ReplicaListen :: "string option"
  ReplicaFallback :: "string option"
  Sentinel :: "string option"
  Master :: "string option"
  Username :: "string option"
  Password :: "string option"
  MasterUsername :: "string option"
  MasterPassword :: "string option"
  RouterMode :: "bool option"
  ResolveRetries :: "int option"
  MaxConnections :: "int option"
  IdleTimeout :: "Duration option"
  Debug :: "bool option"
  SentinelTLS :: "backendTLS option"
  ListenTLS :: "listenTLS option"
  MasterTLS :: "backendTLS option"
  ctls :: resolvedTLS

subsection \<open>Zero values and defaults\<close>

definition zero_backendTLS :: backendTLS where
  "zero_backendTLS = \<lparr>bEnabled = None, bCAFile = None, bCertFile = None, bKeyFile = None,
     bServerName = None, bSkipVerify = None, bPassthrough = None\<rparr>"

definition zero_listenTLS :: listenTLS where
  "zero_listenTLS = \<lparr>lEnabled = None, lCertFile = None, lKeyFile = None, lClientCAFile = None\<rparr>"

definition zero_config :: config where
  "zero_config = \<lparr>Listen = None, ReplicaListen = None, ReplicaFallback = None, Sentinel = None,
     Master = None, Username = None, Password = None, MasterUsername = None,
     MasterPassword = None, RouterMode = None, ResolveRetries = None, MaxConnections = None,
     IdleTimeout = None, Debug = None, SentinelTLS = None, ListenTLS = None, MasterTLS = None,
     ctls = \<lparr>rMaster = None, rMasterProbe = None, rSentinel = None, rListen = None\<rparr>\<rparr>"

definition Default :: config where
  "Default = zero_config\<lparr>
     Listen := Some [], ReplicaListen := Some [], ReplicaFallback := Some ReplicaFallbackMaster,
     Sentinel := Some '':26379'', Master := Some ''mymaster'',
     RouterMode := Some False, ResolveRetries := Some 3, MaxConnections := Some 100,
     IdleTimeout := Some (30 * Second), Debug := Some False,
     SentinelTLS := Some \<lparr>bEnabled = Some False, bCAFile = Some [], bCertFile = Some [],
       bKeyFile = Some [], bServerName = Some [], bSkipVerify = Some False, bPassthrough = None\<rparr>,
     ListenTLS := Some \<lparr>lEnabled = Some False, lCertFile = Some [], lKeyFile = Some [],
       lClientCAFile = Some []\<rparr>,
     MasterTLS := Some \<lparr>bEnabled = Some False, bCAFile = Some [], bCertFile = Some [],
       bKeyFile = Some [], bServerName = Some [], bSkipVerify = Some False,
       bPassthrough = Some False\<rparr>\<rparr>"

subsection \<open>Merge\<close>

definition fill :: "'a option \<Rightarrow> 'a option \<Rightarrow> 'a option" where
  "fill dst src = (if dst = None \<and> src \<noteq> None then src else dst)"

definition ensureBackendTLS :: "backendTLS option \<Rightarrow> backendTLS" where
  "ensureBackendTLS t = (case t of None \<Rightarrow> zero_backendTLS | Some b \<Rightarrow> b)"

definition ensureListenTLS :: "listenTLS option \<Rightarrow> listenTLS" where
  "ensureListenTLS t = (case t of None \<Rightarrow> zero_listenTLS | Some l \<Rightarrow> l)"

text \<open>The three TLS blocks of \<open>Merge\<close>; the one for sentinel does not fill \<open>Passthrough\<close>.\<close>

definition mergeSentinelTLS :: "backendTLS option \<Rightarrow> backendTLS option \<Rightarrow> backendTLS option" where
  "mergeSentinelTLS c oth =
     (case oth of None \<Rightarrow> c
      | Some b \<Rightarrow>
          let s = ensureBackendTLS c in
          Some (s\<lparr>bEnabled := fill (bEnabled s) (bEnabled b), bCAFile := fill (bCAFile s) (bCAFile b),
            bCertFile := fill (bCertFile s) (bCertFile b), bKeyFile := fill (bKeyFile s) (bKeyFile b),
            bServerName := fill (bServerName s) (bServerName b),
            bSkipVerify := fill (bSkipVerify s) (bSkipVerify b)\<rparr>))"

definition mergeListenTLS :: "listenTLS option \<Rightarrow> listenTLS option \<Rightarrow> listenTLS option" where
  "mergeListenTLS c oth =
     (case oth of None \<Rightarrow> c
      | Some b \<Rightarrow>
          let l = ensureListenTLS c in
          Some (l\<lparr>lEnabled := fill (lEnabled l) (lEnabled b), lCertFile := fill (lCertFile l) (lCertFile b),
            lKeyFile := fill (lKeyFile l) (lKeyFile b),
            lClientCAFile := fill (lClientCAFile l) (lClientCAFile b)\<rparr>))"

definition mergeMasterTLS :: "backendTLS option \<Rightarrow> backendTLS option \<Rightarrow> backendTLS option" where
  "mergeMasterTLS c oth =
     (case oth of None \<Rightarrow> c
      | Some b \<Rightarrow>
          let m = ensureBackendTLS c in
          Some (m\<lparr>bEnabled := fill (bEnabled m) (bEnabled b), bCAFile := fill (bCAFile m) (bCAFile b),
            bCertFile := fill (bCertFile m) (bCertFile b), bKeyFile := fill (bKeyFile m) (bKeyFile b),
            bServerName := fill (bServerName m) (bServerName b),
            bSkipVerify := fill (bSkipVerify m) (bSkipVerify b),
            bPassthrough := fill (bPassthrough m) (bPassthrough b)\<rparr>))"

definition Merge :: "config \<Rightarrow> config option \<Rightarrow> config" where
  "Merge c oth =
     (case oth of None \<Rightarrow> c
      | Some b \<Rightarrow> c\<lparr>
          Listen := fill (Listen c) (Listen b),
          ReplicaListen := fill (ReplicaListen c) (ReplicaListen b),
          ReplicaFallback := fill (ReplicaFallback c) (ReplicaFallback b),
          Sentinel := fill (Sentinel c) (Sentinel b),
          Master := fill (Master c) (Master b),
          Username := fill (Username c) (Username b),
          Password := fill (Password c) (Password b),
          MasterUsername := fill (MasterUsername c) (MasterUsername b),
          MasterPassword := fill (MasterPassword c) (MasterPassword b),
          RouterMode := fill (RouterMode c) (RouterMode b),
          ResolveRetries := fill (ResolveRetries c) (ResolveRetries b),
          MaxConnections := fill (MaxConnections c) (MaxConnections b),
          IdleTimeout := fill (IdleTimeout c) (IdleTimeout b),
          Debug := fill (Debug c) (Debug b),
          SentinelTLS := mergeSentinelTLS (SentinelTLS c) (SentinelTLS b),
          ListenTLS := mergeListenTLS (ListenTLS c) (ListenTLS b),
          MasterTLS := mergeMasterTLS (MasterTLS c) (MasterTLS b)\<rparr>)"

subsection \<open>What String prints\<close>

definition strSet :: "string option \<Rightarrow> bool" where
  "strSet s \<longleftrightarrow> (case s of None \<Rightarrow> False | Some x \<Rightarrow> x \<noteq> [])"

definition boolSet :: "bool option \<Rightarrow> bool" where
  "boolSet b \<longleftrightarrow> (case b of None \<Rightarrow> False | Some x \<Rightarrow> x)"

text \<open>
  The copy of the configuration that \<open>String\<close> hands to the YAML encoder: passwords masked,
  disabled sections left out.
\<close>

definition masked :: string where "masked = ''*****''"

definition printed :: "config \<Rightarrow> config" where
  "printed c = c\<lparr>
     Password := (if strSet (Password c) then Some masked else Password c),
     MasterPassword := (if strSet (MasterPassword c) then Some masked else MasterPassword c),
     Listen := (if Listen c = Some [] then None else Listen c),
     ListenTLS := (case ListenTLS c of Some l \<Rightarrow> if \<not> boolSet (lEnabled l) then None else Some l | None \<Rightarrow> None),
     MasterTLS := (case MasterTLS c of Some m \<Rightarrow>
        if \<not> boolSet (bEnabled m) \<and> \<not> boolSet (bPassthrough m) then None else Some m | None \<Rightarrow> None),
     SentinelTLS := (case SentinelTLS c of Some b \<Rightarrow> if \<not> boolSet (bEnabled b) then None else Some b | None \<Rightarrow> None)\<rparr>"

text \<open>
  \<open>String\<close>: the encoder \<open>yaml.Marshal\<close> is a parameter (the bytes and an error, which is dropped);
  the encoded struct has this one field.
\<close>

definition Config_String :: "(config \<Rightarrow> string \<times> string option) \<Rightarrow> config \<Rightarrow> string" where
  "Config_String marshal c = (case marshal (printed c) of (data, _) \<Rightarrow> data)"

section \<open>Settings and the interface of the merge\<close>

datatype setting =
    KListen | KReplicaListen | KReplicaFallback | KSentinel | KMaster | KUsername | KPassword
  | KMasterUsername | KMasterPassword | KRouter | KResolveRetries | KMaxConnections | KIdleTimeout
  | KDebug
  | KSentinelTLSEnabled | KSentinelTLSCAFile | KSentinelTLSCertFile | KSentinelTLSKeyFile
  | KSentinelTLSServerName | KSentinelTLSSkipVerify
  | KListenTLSEnabled | KListenTLSCertFile | KListenTLSKeyFile | KListenTLSClientCAFile
  | KMasterTLSEnabled | KMasterTLSCAFile | KMasterTLSCertFile | KMasterTLSKeyFile
  | KMasterTLSServerName | KMasterTLSSkipVerify | KMasterTLSPassthrough

datatype setting_value = VStr string | VBool bool | VInt int

fun lookup_setting :: "setting \<Rightarrow> config \<Rightarrow> setting_value option" where
  "lookup_setting KListen c = map_option VStr (Listen c)"
| "lookup_setting KReplicaListen c = map_option VStr (ReplicaListen c)"
| "lookup_setting KReplicaFallback c = map_option VStr (ReplicaFallback c)"
| "lookup_setting KSentinel c = map_option VStr (Sentinel c)"
| "lookup_setting KMaster c = map_option VStr (Master c)"
| "lookup_setting KUsername c = map_option VStr (Username c)"
| "lookup_setting KPassword c = map_option VStr (Password c)"
| "lookup_setting KMasterUsername c = map_option VStr (MasterUsername c)"
| "lookup_setting KMasterPassword c = map_option VStr (MasterPassword c)"
| "lookup_setting KRouter c = map_option VBool (RouterMode c)"
| "lookup_setting KResolveRetries c = map_option VInt (ResolveRetries c)"
| "lookup_setting KMaxConnections c = map_option VInt (MaxConnections c)"
| "lookup_setting KIdleTimeout c = map_option VInt (IdleTimeout c)"
| "lookup_setting KDebug c = map_option VBool (Debug c)"
| "lookup_setting KSentinelTLSEnabled c = map_option VBool (Option.bind (SentinelTLS c) bEnabled)"
| "lookup_setting KSentinelTLSCAFile c = map_option VStr (Option.bind (SentinelTLS c) bCAFile)"
| "lookup_setting KSentinelTLSCertFile c = map_option VStr (Option.bind (SentinelTLS c) bCertFile)"
| "lookup_setting KSentinelTLSKeyFile c = map_option VStr (Option.bind (SentinelTLS c) bKeyFile)"
| "lookup_setting KSentinelTLSServerName c = map_option VStr (Option.bind (SentinelTLS c) bServerName)"
| "lookup_setting KSentinelTLSSkipVerify c = map_option VBool (Option.bind (SentinelTLS c) bSkipVerify)"
| "lookup_setting KListenTLSEnabled c = map_option VBool (Option.bind (ListenTLS c) lEnabled)"
| "lookup_setting KListenTLSCertFile c = map_option VStr (Option.bind (ListenTLS c) lCertFile)"
| "lookup_setting KListenTLSKeyFile c = map_option VStr (Option.bind (ListenTLS c) lKeyFile)"
| "lookup_setting KListenTLSClientCAFile c = map_option VStr (Option.bind (ListenTLS c) lClientCAFile)"
| "lookup_setting KMasterTLSEnabled c = map_option VBool (Option.bind (MasterTLS c) bEnabled)"
| "lookup_setting KMasterTLSCAFile c = map_option VStr (Option.bind (MasterTLS c) bCAFile)"
| "lookup_setting KMasterTLSCertFile c = map_option VStr (Option.bind (MasterTLS c) bCertFile)"
| "lookup_setting KMasterTLSKeyFile c = map_option VStr (Option.bind (MasterTLS c) bKeyFile)"
| "lookup_setting KMasterTLSServerName c = map_option VStr (Option.bind (MasterTLS c) bServerName)"
| "lookup_setting KMasterTLSSkipVerify c = map_option VBool (Option.bind (MasterTLS c) bSkipVerify)"
| "lookup_setting KMasterTLSPassthrough c = map_option VBool (Option.bind (MasterTLS c) bPassthrough)"

text \<open>The value of the first source that has one.\<close>

fun first_some :: "'a option list \<Rightarrow> 'a option" where
  "first_some [] = None"
| "first_some (x # xs) = (case x of None \<Rightarrow> first_some xs | Some v \<Rightarrow> Some v)"

locale layered_settings =
  fixes merge :: "'c \<Rightarrow> 'c \<Rightarrow> 'c" and get :: "'k \<Rightarrow> 'c \<Rightarrow> 'v option"
  assumes get_merge: "get k (merge a b) = first_some [get k a, get k b]"
begin

lemma get_foldl: "get k (foldl merge c cs) = first_some (map (get k) (c # cs))"
  by (induction cs arbitrary: c) (simp_all add: get_merge split: option.split)

lemma set_in_first: "get k c = Some v \<Longrightarrow> get k (foldl merge c cs) = Some v"
  by (simp add: get_foldl)

lemma total_if_last_total:
  "get k (last (c # cs)) \<noteq> None \<Longrightarrow> get k (foldl merge c cs) \<noteq> None"
  by (induction cs arbitrary: c rule: rev_induct) (auto simp: get_merge split: option.split)

end

lemma fill_first_some: "fill a b = first_some [a, b]"
  by (cases a; cases b) (simp_all add: fill_def)

lemma map_fill: "map_option f (fill a b) = first_some [map_option f a, map_option f b]"
  by (cases a; cases b) (simp_all add: fill_def)

text \<open>Each field of the TLS sections is filled on its own.\<close>

lemma merge_sections:
  "Option.bind (mergeSentinelTLS a b) bEnabled = fill (Option.bind a bEnabled) (Option.bind b bEnabled)"
  "Option.bind (mergeSentinelTLS a b) bCAFile = fill (Option.bind a bCAFile) (Option.bind b bCAFile)"
  "Option.bind (mergeSentinelTLS a b) bCertFile = fill (Option.bind a bCertFile) (Option.bind b bCertFile)"
  "Option.bind (mergeSentinelTLS a b) bKeyFile = fill (Option.bind a bKeyFile) (Option.bind b bKeyFile)"
  "Option.bind (mergeSentinelTLS a b) bServerName = fill (Option.bind a bServerName) (Option.bind b bServerName)"
  "Option.bind (mergeSentinelTLS a b) bSkipVerify = fill (Option.bind a bSkipVerify) (Option.bind b bSkipVerify)"
  "Option.bind (mergeSentinelTLS a b) bPassthrough = Option.bind a bPassthrough"
  "Option.bind (mergeMasterTLS a b) bEnabled = fill (Option.bind a bEnabled) (Option.bind b bEnabled)"
  "Option.bind (mergeMasterTLS a b) bCAFile = fill (Option.bind a bCAFile) (Option.bind b bCAFile)"
  "Option.bind (mergeMasterTLS a b) bCertFile = fill (Option.bind a bCertFile) (Option.bind b bCertFile)"
  "Option.bind (mergeMasterTLS a b) bKeyFile = fill (Option.bind a bKeyFile) (Option.bind b bKeyFile)"
  "Option.bind (mergeMasterTLS a b) bServerName = fill (Option.bind a bServerName) (Option.bind b bServerName)"
  "Option.bind (mergeMasterTLS a b) bSkipVerify = fill (Option.bind a bSkipVerify) (Option.bind b bSkipVerify)"
  "Option.bind (mergeMasterTLS a b) bPassthrough = fill (Option.bind a bPassthrough) (Option.bind b bPassthrough)"
  by (cases a; cases b; simp add: mergeSentinelTLS_def mergeMasterTLS_def Let_def
      ensureBackendTLS_def zero_backendTLS_def fill_def)+

lemma merge_listen_section:
  "Option.bind (mergeListenTLS a b) lEnabled = fill (Option.bind a lEnabled) (Option.bind b lEnabled)"
  "Option.bind (mergeListenTLS a b) lCertFile = fill (Option.bind a lCertFile) (Option.bind b lCertFile)"
  "Option.bind (mergeListenTLS a b) lKeyFile = fill (Option.bind a lKeyFile) (Option.bind b lKeyFile)"
  "Option.bind (mergeListenTLS a b) lClientCAFile = fill (Option.bind a lClientCAFile) (Option.bind b lClientCAFile)"
  by (cases a; cases b; simp add: mergeListenTLS_def Let_def ensureListenTLS_def zero_listenTLS_def fill_def)+

lemmas merge_fields = merge_sections merge_listen_section map_fill

interpretation merge_layers: layered_settings "\<lambda>a b. Merge a (Some b)" lookup_setting
proof
  fix k :: setting and a b :: config
  show "lookup_setting k (Merge a (Some b)) = first_some [lookup_setting k a, lookup_setting k b]"
    by (cases k) (simp_all add: Merge_def merge_fields)
qed

lemma Merge_None [simp]: "Merge c None = c"
  by (simp add: Merge_def)

lemma Merge_select [simp]:
  "Listen (Merge a (Some b)) = fill (Listen a) (Listen b)"
  "ReplicaListen (Merge a (Some b)) = fill (ReplicaListen a) (ReplicaListen b)"
  "ReplicaFallback (Merge a (Some b)) = fill (ReplicaFallback a) (ReplicaFallback b)"
  "RouterMode (Merge a (Some b)) = fill (RouterMode a) (RouterMode b)"
  "SentinelTLS (Merge a (Some b)) = mergeSentinelTLS (SentinelTLS a) (SentinelTLS b)"
  "ListenTLS (Merge a (Some b)) = mergeListenTLS (ListenTLS a) (ListenTLS b)"
  "MasterTLS (Merge a (Some b)) = mergeMasterTLS (MasterTLS a) (MasterTLS b)"
  by (simp_all add: Merge_def)

lemma fill_simps [simp]: "fill a (Some v) \<noteq> None" "fill None b = b" "fill (Some v) b = Some v"
  "fill a None = a"
  by (cases a; simp add: fill_def)+

lemma merge_section_Some [simp]:
  "mergeSentinelTLS a b = None \<longleftrightarrow> a = None \<and> b = None"
  "mergeMasterTLS a b = None \<longleftrightarrow> a = None \<and> b = None"
  "mergeListenTLS c d = None \<longleftrightarrow> c = None \<and> d = None"
  by (auto simp: mergeSentinelTLS_def mergeMasterTLS_def mergeListenTLS_def Let_def split: option.splits)

text \<open>The settings that have a built-in default are those other than the four credentials.\<close>

definition has_default :: "setting \<Rightarrow> bool" where
  "has_default k \<longleftrightarrow> k \<notin> {KUsername, KPassword, KMasterUsername, KMasterPassword}"

lemma Default_total: "has_default k \<longleftrightarrow> lookup_setting k Default \<noteq> None"
  by (cases k) (simp_all add: has_default_def Default_def zero_config_def)

end
