(* ===== verification/Tls.thy ===== *)
theory Tls
  imports Config
begin

text \<open>
  \<open>pkg/config/tls.go\<close>: the TLS setups built from the three TLS sections. The file
  system and the certificate parser of the host are parameters (record \<open>host\<close>). A
  dereference of a nil pointer is the error \<open>NilDeref\<close>, so that a panic of the source is a
  value of the model.
\<close>

section \<open>Definitions\<close>

text \<open>
  What the program asks its host: \<open>os.ReadFile\<close>; whether a PEM text holds a CA certificate
  (\<open>x509.CertPool.AppendCertsFromPEM\<close>) and whether two PEM texts are a certificate and its
  key (\<open>tls.X509KeyPair\<close>); \<open>os.LookupEnv\<close>; the YAML decoder (third party, with unknown
  fields refused), which yields the fields the document sets or fails, with \<open>io.EOF\<close> when the
  input has no document and else with a message; and
  the nanoseconds of a decimal fraction of a time unit, \<open>uint64(float64(f) * (float64(unit) /
  scale))\<close> with \<open>scale\<close> a power of ten, which depends on the machine's floating point.
\<close>

datatype yaml_error = YamlEOF | YamlError string

record host =
  hReadFile :: "string \<Rightarrow> string option"
  hPEM :: "string \<Rightarrow> bool"
  hKeyPair :: "string \<times> string \<Rightarrow> bool"
  hEnv :: "string \<Rightarrow> string option"
  hYaml :: "string \<Rightarrow> yaml_error + config"
  hFrac :: "nat \<Rightarrow> nat \<Rightarrow> nat \<Rightarrow> nat"

datatype tls_section = SentinelSection | ListenSection | MasterSection

datatype cfg_error =
    NilDeref
  | SentinelPassthrough
  | OptionsNeedTLS tls_section
  | ReadingCA tls_section
  | NoCACertificates tls_section string
  | CertAndKeyTogether tls_section
  | KeyPairFailed tls_section
  | ListenNeedsCertAndKey
  | TLSAndPassthrough
  | InvalidFallback string
  | RouterAndPassthrough
  | InvalidEnv string
  | ReadingConfigFile
  | ParsingConfigFile string

definition deref :: "'a option \<Rightarrow> cfg_error + 'a" where
  "deref p = (case p of None \<Rightarrow> Inl NilDeref | Some v \<Rightarrow> Inr v)"

definition loadCertPool :: "host \<Rightarrow> tls_section \<Rightarrow> string \<Rightarrow> cfg_error + string" where
  "loadCertPool h sec caFile =
     (case hReadFile h caFile of
        None \<Rightarrow> Inl (ReadingCA sec)
      | Some pem \<Rightarrow> if hPEM h pem then Inr pem else Inl (NoCACertificates sec caFile))"

text \<open>\<open>tls.LoadX509KeyPair\<close>.\<close>

definition LoadX509KeyPair :: "host \<Rightarrow> tls_section \<Rightarrow> string \<Rightarrow> string \<Rightarrow> cfg_error + (string \<times> string)" where
  "LoadX509KeyPair h sec certFile keyFile =
     (case (hReadFile h certFile, hReadFile h keyFile) of
        (Some c, Some k) \<Rightarrow> if hKeyPair h (c, k) then Inr (c, k) else Inl (KeyPairFailed sec)
      | _ \<Rightarrow> Inl (KeyPairFailed sec))"

text \<open>
  The part that \<open>sentinelTLSConfig\<close> and \<open>masterTLSConfig\<close> have in common, statement for
  statement: server name, CA pool, client certificate.
\<close>

definition clientTLSConfig :: "host \<Rightarrow> tls_section \<Rightarrow> backendTLS \<Rightarrow> cfg_error + tlsConfig" where
  "clientTLSConfig h sec c =
     bindR (deref (bServerName c)) (\<lambda>sn.
     bindR (deref (bSkipVerify c)) (\<lambda>skip.
     let t0 = \<lparr>tMinVersion = VersionTLS12, tServerName = sn, tInsecureSkipVerify = skip,
        tRootCAs = None, tCertificates = [], tClientCAs = None, tRequireClientCert = False\<rparr> in
     bindR (if strSet (bCAFile c)
            then bindR (loadCertPool h sec (the (bCAFile c))) (\<lambda>pool. Inr (t0\<lparr>tRootCAs := Some pool\<rparr>))
            else Inr t0) (\<lambda>t1.
     if strSet (bCertFile c) \<noteq> strSet (bKeyFile c) then Inl (CertAndKeyTogether sec)
     else if strSet (bCertFile c)
     then bindR (LoadX509KeyPair h sec (the (bCertFile c)) (the (bKeyFile c)))
            (\<lambda>cert. Inr (t1\<lparr>tCertificates := [cert]\<rparr>))
     else Inr t1)))"

definition sentinelTLSConfig :: "host \<Rightarrow> config \<Rightarrow> cfg_error + tlsConfig option" where
  "sentinelTLSConfig h cs =
     (case SentinelTLS cs of
        None \<Rightarrow> Inr None
      | Some c \<Rightarrow>
          if boolSet (bPassthrough c) then Inl SentinelPassthrough
          else if \<not> boolSet (bEnabled c) then
            if strSet (bCAFile c) \<or> strSet (bCertFile c) \<or> strSet (bKeyFile c) \<or>
               strSet (bServerName c) \<or> boolSet (bSkipVerify c)
            then Inl (OptionsNeedTLS SentinelSection)
            else Inr None
          else bindR (clientTLSConfig h SentinelSection c) (\<lambda>t. Inr (Some t)))"

definition listenTLSConfig :: "host \<Rightarrow> config \<Rightarrow> cfg_error + tlsConfig option" where
  "listenTLSConfig h cs =
     (case ListenTLS cs of
        None \<Rightarrow> Inr None
      | Some c \<Rightarrow>
          if \<not> boolSet (lEnabled c) then
            if strSet (lCertFile c) \<or> strSet (lKeyFile c) \<or> strSet (lClientCAFile c)
            then Inl (OptionsNeedTLS ListenSection)
            else Inr None
          else if \<not> strSet (lCertFile c) \<or> \<not> strSet (lKeyFile c) then Inl ListenNeedsCertAndKey
          else
            bindR (LoadX509KeyPair h ListenSection (the (lCertFile c)) (the (lKeyFile c))) (\<lambda>cert.
            let t = \<lparr>tMinVersion = VersionTLS12, tServerName = [], tInsecureSkipVerify = False,
               tRootCAs = None, tCertificates = [cert], tClientCAs = None, tRequireClientCert = False\<rparr> in
            if strSet (lClientCAFile c)
            then bindR (loadCertPool h ListenSection (the (lClientCAFile c)))
                   (\<lambda>pool. Inr (Some (t\<lparr>tClientCAs := Some pool, tRequireClientCert := True\<rparr>)))
            else Inr (Some t)))"

text \<open>The result is the pair of the probe's and the data connection's setup.\<close>

definition masterTLSConfig :: "host \<Rightarrow> config \<Rightarrow> cfg_error + (tlsConfig option \<times> tlsConfig option)" where
  "masterTLSConfig h cs =
     (case MasterTLS cs of
        None \<Rightarrow> Inr (None, None)
      | Some c \<Rightarrow>
          let passthrough = boolSet (bPassthrough c);
              enabled = (boolSet (bEnabled c) \<or> strSet (bCAFile c) \<or> strSet (bCertFile c) \<or>
                strSet (bKeyFile c) \<or> strSet (bServerName c) \<or> boolSet (bSkipVerify c))
          in if passthrough \<and> boolSet (bEnabled c) then Inl TLSAndPassthrough
             else if \<not> enabled \<and> \<not> passthrough then Inr (None, None)
             else bindR (clientTLSConfig h MasterSection c) (\<lambda>t.
                    if passthrough then Inr (Some t, None) else Inr (Some t, Some t)))"

text \<open>The accessors of the resolved setups.\<close>

definition SentinelTLSConfig :: "config \<Rightarrow> tlsConfig option" where
  "SentinelTLSConfig c = rSentinel (ctls c)"

definition ListenTLSConfig :: "config \<Rightarrow> tlsConfig option" where
  "ListenTLSConfig c = rListen (ctls c)"

definition MasterTLSConfig :: "config \<Rightarrow> tlsConfig option" where
  "MasterTLSConfig c = rMaster (ctls c)"

definition MasterProbeTLSConfig :: "config \<Rightarrow> tlsConfig option" where
  "MasterProbeTLSConfig c = rMasterProbe (ctls c)"

section \<open>Facts\<close>

lemma deref_simps [simp]: "deref (Some v) = Inr v" "deref None = Inl NilDeref"
  by (simp_all add: deref_def)

lemma deref_Inr_iff [simp]: "deref p = Inr v \<longleftrightarrow> p = Some v"
  by (cases p) simp_all

lemma load_no_nil [simp]:
  "loadCertPool h sec f \<noteq> Inl NilDeref" "LoadX509KeyPair h sec c k \<noteq> Inl NilDeref"
  by (auto simp: loadCertPool_def LoadX509KeyPair_def split: option.splits if_splits)

lemma load_no_passthrough [simp]:
  "loadCertPool h sec f \<noteq> Inl SentinelPassthrough" "LoadX509KeyPair h sec c k \<noteq> Inl SentinelPassthrough"
  by (auto simp: loadCertPool_def LoadX509KeyPair_def split: option.splits if_splits)

lemma clientTLSConfig_no_passthrough [simp]: "clientTLSConfig h sec c \<noteq> Inl SentinelPassthrough"
  by (auto simp: clientTLSConfig_def Let_def bindR_Inl_iff deref_def split: option.splits if_splits)

lemma tls_no_passthrough [simp]:
  "listenTLSConfig h cs \<noteq> Inl SentinelPassthrough" "masterTLSConfig h cs \<noteq> Inl SentinelPassthrough"
  by (auto simp: listenTLSConfig_def masterTLSConfig_def bindR_Inl_iff Let_def split: option.splits if_splits)

lemma sentinelTLSConfig_passthrough:
  "sentinelTLSConfig h cs = Inl SentinelPassthrough \<longleftrightarrow> boolSet (Option.bind (SentinelTLS cs) bPassthrough)"
  by (auto simp: sentinelTLSConfig_def bindR_Inl_iff boolSet_def split: option.splits)

text \<open>A section whose two dereferenced fields are set.\<close>

definition complete_section :: "backendTLS option \<Rightarrow> bool" where
  "complete_section s \<longleftrightarrow> (case s of None \<Rightarrow> False | Some b \<Rightarrow> bServerName b \<noteq> None \<and> bSkipVerify b \<noteq> None)"

lemma clientTLSConfig_no_nil:
  "bServerName c \<noteq> None \<Longrightarrow> bSkipVerify c \<noteq> None \<Longrightarrow> clientTLSConfig h sec c \<noteq> Inl NilDeref"
  by (auto simp: clientTLSConfig_def Let_def bindR_Inl_iff split: if_splits)

lemma clientTLSConfig_ok:
  assumes "clientTLSConfig h sec c = Inr t"
  shows "tMinVersion t = VersionTLS12" "bServerName c = Some (tServerName t)"
    "bSkipVerify c = Some (tInsecureSkipVerify t)"
    "tRootCAs t = None \<longleftrightarrow> \<not> strSet (bCAFile c)" "tCertificates t = [] \<longleftrightarrow> \<not> strSet (bCertFile c)"
    "strSet (bCertFile c) = strSet (bKeyFile c)"
  using assms by (auto simp: clientTLSConfig_def Let_def bindR_Inr_iff split: if_splits)

lemma sentinelTLSConfig_no_nil: "complete_section (SentinelTLS cs) \<Longrightarrow> sentinelTLSConfig h cs \<noteq> Inl NilDeref"
  by (auto simp: sentinelTLSConfig_def complete_section_def bindR_Inl_iff clientTLSConfig_no_nil
      split: option.splits)

lemma masterTLSConfig_no_nil: "complete_section (MasterTLS cs) \<Longrightarrow> masterTLSConfig h cs \<noteq> Inl NilDeref"
  by (auto simp: masterTLSConfig_def complete_section_def bindR_Inl_iff clientTLSConfig_no_nil Let_def
      split: option.splits if_splits)

lemma listenTLSConfig_no_nil [simp]: "listenTLSConfig h cs \<noteq> Inl NilDeref"
  by (auto simp: listenTLSConfig_def bindR_Inl_iff Let_def split: option.splits if_splits)

lemma sentinelTLSConfig_Some:
  "sentinelTLSConfig h cs = Inr (Some t) \<Longrightarrow>
     \<exists>c. SentinelTLS cs = Some c \<and> boolSet (bEnabled c) \<and> clientTLSConfig h SentinelSection c = Inr t"
  by (auto simp: sentinelTLSConfig_def bindR_Inr_iff split: option.splits if_splits)

lemma masterTLSConfig_Some:
  "masterTLSConfig h cs = Inr (probe, dial) \<Longrightarrow> probe = Some t \<Longrightarrow>
     \<exists>c. MasterTLS cs = Some c \<and> clientTLSConfig h MasterSection c = Inr t \<and>
       dial = (if boolSet (bPassthrough c) then None else Some t) \<and>
       \<not> (boolSet (bPassthrough c) \<and> boolSet (bEnabled c))"
  by (auto simp: masterTLSConfig_def bindR_Inr_iff Let_def split: option.splits if_splits)

lemma masterTLSConfig_None: "masterTLSConfig h cs = Inr (None, dial) \<Longrightarrow> dial = None"
  by (auto simp: masterTLSConfig_def bindR_Inr_iff Let_def split: option.splits if_splits)

lemma listenTLSConfig_Some:
  assumes "listenTLSConfig h cs = Inr (Some t)"
  obtains c where "ListenTLS cs = Some c" "boolSet (lEnabled c)" "tMinVersion t = VersionTLS12"
    "length (tCertificates t) = 1"
    "tRequireClientCert t = strSet (lClientCAFile c)" "(tClientCAs t \<noteq> None) = strSet (lClientCAFile c)"
  using assms by (auto simp: listenTLSConfig_def bindR_Inr_iff Let_def split: option.splits if_splits)

end
