(* ===== verification/Env.thy ===== *)
theory Env
  imports Tls
begin

text \<open>
  \<open>pkg/config/env.go\<close>: the settings taken from environment variables, with
  \<open>time.ParseDuration\<close> of the standard library, which the YAML file shares.
\<close>

section \<open>Definitions\<close>

subsection \<open>time.ParseDuration\<close>

text \<open>\<open>leadingInt\<close>: digits into a number, at most \<open>1<<63\<close>; the rest of the string follows.\<close>

fun leadingInt :: "nat \<Rightarrow> string \<Rightarrow> (nat \<times> string) option" where
  "leadingInt x [] = Some (x, [])"
| "leadingInt x (c # s) =
     (if \<not> is_digit c then Some (x, c # s)
      else if 2 ^ 63 div 10 < x then None
      else if 2 ^ 63 < x * 10 + digit_val c then None
      else leadingInt (x * 10 + digit_val c) s)"

text \<open>
  \<open>leadingFraction\<close>: digits into a number and the count of those that fit (the exponent
  of \<open>scale\<close>); digits beyond the range are skipped.
\<close>

fun leadingFraction :: "nat \<Rightarrow> nat \<Rightarrow> bool \<Rightarrow> string \<Rightarrow> nat \<times> nat \<times> string" where
  "leadingFraction x k overflow [] = (x, k, [])"
| "leadingFraction x k overflow (c # s) =
     (if \<not> is_digit c then (x, k, c # s)
      else if overflow then leadingFraction x k True s
      else if (2 ^ 63 - 1) div 10 < x then leadingFraction x k True s
      else if 2 ^ 63 < x * 10 + digit_val c then leadingFraction x k True s
      else leadingFraction (x * 10 + digit_val c) (Suc k) False s)"

text \<open>The unit map; micro is spelled \<open>us\<close> or with either of the two Unicode signs.\<close>

definition unitMap :: "string \<Rightarrow> nat option" where
  "unitMap u =
     (if u = ''ns'' then Some 1
      else if u = ''us'' \<or> u = [CHR 0xC2, CHR 0xB5, CHR ''s''] \<or> u = [CHR 0xCE, CHR 0xBC, CHR ''s'']
      then Some 1000
      else if u = ''ms'' then Some 1000000
      else if u = ''s'' then Some 1000000000
      else if u = ''m'' then Some 60000000000
      else if u = ''h'' then Some 3600000000000
      else None)"

definition unit_char :: "char \<Rightarrow> bool" where
  "unit_char c \<longleftrightarrow> c \<noteq> CHR ''.'' \<and> \<not> is_digit c"

text \<open>The optional fraction of a number: its digits, their count, the rest, whether it has any.\<close>

definition parseFraction :: "string \<Rightarrow> nat \<times> nat \<times> string \<times> bool" where
  "parseFraction s =
     (case s of
        [] \<Rightarrow> (0, 0, s, False)
      | d # s' \<Rightarrow>
          if d = CHR ''.'' then
            (case leadingFraction 0 0 False s' of (f, k, r) \<Rightarrow> (f, k, r, length s' \<noteq> length r))
          else (0, 0, s, False))"

text \<open>One component of a duration, such as \<open>1.5h\<close>: its nanoseconds and the rest.\<close>

definition parseComponent :: "host \<Rightarrow> string \<Rightarrow> (nat \<times> string) option" where
  "parseComponent h s =
     (if s = [] \<or> hd s \<noteq> CHR ''.'' \<and> \<not> is_digit (hd s) then None
      else case leadingInt 0 s of
        None \<Rightarrow> None
      | Some (v, s1) \<Rightarrow>
          (case parseFraction s1 of (f, k, s2, post) \<Rightarrow>
             let pre = (length s \<noteq> length s1);
                 u = takeWhile unit_char s2;
                 s3 = dropWhile unit_char s2
             in if \<not> pre \<and> \<not> post then None
                else if u = [] then None
                else case unitMap u of
                  None \<Rightarrow> None
                | Some n \<Rightarrow>
                    if 2 ^ 63 div n < v then None
                    else let w = (if 0 < f then v * n + hFrac h f n k else v * n)
                         in if 0 < f \<and> 2 ^ 63 < w then None else Some (w, s3)))"

lemma leadingInt_length: "leadingInt x s = Some (v, s') \<Longrightarrow> length s' \<le> length s"
  by (induction x s rule: leadingInt.induct) (auto split: if_splits)

lemma leadingFraction_length: "leadingFraction x k b s = (f, j, s') \<Longrightarrow> length s' \<le> length s"
  by (induction x k b s rule: leadingFraction.induct) (auto split: if_splits)

lemma parseFraction_length: "parseFraction s = (f, k, r, post) \<Longrightarrow> length r \<le> length s"
  by (fastforce simp: parseFraction_def split: list.splits if_splits prod.splits dest: leadingFraction_length)

lemma dropWhile_shorter: "takeWhile P xs \<noteq> [] \<Longrightarrow> length (dropWhile P xs) < length xs"
  by (cases xs) (auto simp: length_dropWhile_le less_Suc_eq_le split: if_splits)

lemma parseComponent_shorter:
  assumes "parseComponent h s = Some (w, s')"
  shows "length s' < length s"
proof -
  from assms obtain v s1 f k s2 post where s1: "leadingInt 0 s = Some (v, s1)"
    and s2: "parseFraction s1 = (f, k, s2, post)" "takeWhile unit_char s2 \<noteq> []" "s' = dropWhile unit_char s2"
    by (auto simp: parseComponent_def Let_def split: if_splits option.splits prod.splits)
  with leadingInt_length [OF s1] parseFraction_length [OF s2(1)] dropWhile_shorter [OF s2(2)]
  show ?thesis by simp
qed

text \<open>The sum is a \<open>uint64\<close>: two components of \<open>1<<63\<close> wrap around to zero.\<close>

function parseComponents :: "host \<Rightarrow> nat \<Rightarrow> string \<Rightarrow> nat option" where
  "parseComponents h d s =
     (if s = [] then Some d
      else case parseComponent h s of
        None \<Rightarrow> None
      | Some (v, s') \<Rightarrow>
          let d' = (d + v) mod 2 ^ 64 in if 2 ^ 63 < d' then None else parseComponents h d' s')"
  by pat_completeness auto
termination
  by (relation "measure (\<lambda>(h, d, s). length s)") (auto dest: parseComponent_shorter)

declare parseComponents.simps [simp del]

definition ParseDuration :: "host \<Rightarrow> string \<Rightarrow> Duration option" where
  "ParseDuration h s0 =
     (let neg = (take 1 s0 = ''-'');
          s = (if take 1 s0 = ''-'' \<or> take 1 s0 = ''+'' then drop 1 s0 else s0)
      in if s = ''0'' then Some 0
         else if s = [] then None
         else case parseComponents h 0 s of
           None \<Rightarrow> None
         | Some d \<Rightarrow>
             if neg then Some (- int d)
             else if 2 ^ 63 - 1 < d then None
             else Some (int d))"

subsection \<open>The variables\<close>

definition strEnv :: "host \<Rightarrow> string \<Rightarrow> string option" where
  "strEnv h name = hEnv h name"

definition boolEnv :: "host \<Rightarrow> string \<Rightarrow> cfg_error + bool option" where
  "boolEnv h name =
     (case hEnv h name of
        None \<Rightarrow> Inr None
      | Some val \<Rightarrow> (case ParseBool val of Inl _ \<Rightarrow> Inl (InvalidEnv name) | Inr b \<Rightarrow> Inr (Some b)))"

definition durEnv :: "host \<Rightarrow> string \<Rightarrow> cfg_error + Duration option" where
  "durEnv h name =
     (case hEnv h name of
        None \<Rightarrow> Inr None
      | Some val \<Rightarrow> (case ParseDuration h val of None \<Rightarrow> Inl (InvalidEnv name) | Some d \<Rightarrow> Inr (Some d)))"

definition intEnv :: "host \<Rightarrow> string \<Rightarrow> cfg_error + int option" where
  "intEnv h name =
     (case hEnv h name of
        None \<Rightarrow> Inr None
      | Some val \<Rightarrow> (case Atoi val of Inl _ \<Rightarrow> Inl (InvalidEnv name) | Inr i \<Rightarrow> Inr (Some i)))"

definition FromEnv :: "host \<Rightarrow> cfg_error + config" where
  "FromEnv h =
     bindR (boolEnv h ''RSP_ROUTER'') (\<lambda>router.
     bindR (intEnv h ''RSP_RESOLVE_RETRIES'') (\<lambda>retries.
     bindR (intEnv h ''RSP_MAX_CONNECTIONS'') (\<lambda>maxconn.
     bindR (durEnv h ''RSP_IDLE_TIMEOUT'') (\<lambda>idle.
     bindR (boolEnv h ''RSP_DEBUG'') (\<lambda>debug.
     bindR (boolEnv h ''RSP_SENTINEL_TLS'') (\<lambda>stls.
     bindR (boolEnv h ''RSP_SENTINEL_TLS_SKIP_VERIFY'') (\<lambda>sskip.
     bindR (boolEnv h ''RSP_LISTEN_TLS'') (\<lambda>ltls.
     bindR (boolEnv h ''RSP_MASTER_TLS'') (\<lambda>mtls.
     bindR (boolEnv h ''RSP_MASTER_TLS_SKIP_VERIFY'') (\<lambda>mskip.
     bindR (boolEnv h ''RSP_MASTER_TLS_PASSTHROUGH'') (\<lambda>mpass.
     Inr (zero_config\<lparr>
       Listen := strEnv h ''RSP_LISTEN'',
       ReplicaListen := strEnv h ''RSP_REPLICA_LISTEN'',
       ReplicaFallback := strEnv h ''RSP_REPLICA_FALLBACK'',
       Sentinel := strEnv h ''RSP_SENTINEL'',
       Master := strEnv h ''RSP_MASTER'',
       Username := strEnv h ''SENTINEL_USERNAME'',
       Password := strEnv h ''SENTINEL_PASSWORD'',
       MasterUsername := strEnv h ''RSP_MASTER_USERNAME'',
       MasterPassword := strEnv h ''RSP_MASTER_PASSWORD'',
       RouterMode := router, ResolveRetries := retries, MaxConnections := maxconn,
       IdleTimeout := idle, Debug := debug,
       SentinelTLS := Some (zero_backendTLS\<lparr>bEnabled := stls,
         bCAFile := strEnv h ''RSP_SENTINEL_TLS_CA_FILE'',
         bCertFile := strEnv h ''RSP_SENTINEL_TLS_CERT_FILE'',
         bKeyFile := strEnv h ''RSP_SENTINEL_TLS_KEY_FILE'',
         bServerName := strEnv h ''RSP_SENTINEL_TLS_SERVER_NAME'', bSkipVerify := sskip\<rparr>),
       ListenTLS := Some (zero_listenTLS\<lparr>lEnabled := ltls,
         lCertFile := strEnv h ''RSP_LISTEN_TLS_CERT_FILE'',
         lKeyFile := strEnv h ''RSP_LISTEN_TLS_KEY_FILE'',
         lClientCAFile := strEnv h ''RSP_LISTEN_TLS_CLIENT_CA_FILE''\<rparr>),
       MasterTLS := Some (zero_backendTLS\<lparr>bEnabled := mtls,
         bCAFile := strEnv h ''RSP_MASTER_TLS_CA_FILE'',
         bCertFile := strEnv h ''RSP_MASTER_TLS_CERT_FILE'',
         bKeyFile := strEnv h ''RSP_MASTER_TLS_KEY_FILE'',
         bServerName := strEnv h ''RSP_MASTER_TLS_SERVER_NAME'', bSkipVerify := mskip,
         bPassthrough := mpass\<rparr>)\<rparr>))))))))))))"

section \<open>Facts\<close>

lemma env_error:
  "boolEnv h n = Inl e \<Longrightarrow> e = InvalidEnv n" "durEnv h n = Inl e \<Longrightarrow> e = InvalidEnv n"
  "intEnv h n = Inl e \<Longrightarrow> e = InvalidEnv n"
  by (auto simp: boolEnv_def durEnv_def intEnv_def split: option.splits sum.splits)

lemma FromEnv_error: "FromEnv h = Inl e \<Longrightarrow> \<exists>n. e = InvalidEnv n"
  by (auto simp: FromEnv_def bindR_Inl_iff dest: env_error)

lemma FromEnv_errors [simp]: "FromEnv h \<noteq> Inl NilDeref" "FromEnv h \<noteq> Inl SentinelPassthrough"
  using FromEnv_error by blast+

end
