(* ===== verification/Load.thy ===== *)
theory Load
  imports Env
begin

text \<open>
  \<open>Load\<close> and \<open>loadFile\<close> of \<open>pkg/config/config.go\<close>: flags, environment, file and
  defaults are merged, checked and resolved into the configuration the program runs with.
\<close>

section \<open>Definitions\<close>

definition loadFile :: "host \<Rightarrow> string \<Rightarrow> cfg_error + config" where
  "loadFile h path =
     (case hReadFile h path of
        None \<Rightarrow> Inl ReadingConfigFile
      | Some data \<Rightarrow>
          (case hYaml h data of
             Inl (YamlError m) \<Rightarrow> Inl (ParsingConfigFile m)
           | Inl YamlEOF \<Rightarrow> Inr zero_config
           | Inr c \<Rightarrow> Inr c))"

text \<open>The merge of the sources, the first part of \<open>Load\<close>.\<close>

definition mergeSources :: "host \<Rightarrow> config option \<Rightarrow> string \<Rightarrow> cfg_error + config" where
  "mergeSources h flagCfg path =
     (let cfg0 = (case flagCfg of None \<Rightarrow> zero_config | Some c \<Rightarrow> c) in
      bindR (FromEnv h) (\<lambda>envCfg.
      let cfg1 = Merge cfg0 (Some envCfg) in
      bindR (if path \<noteq> [] then bindR (loadFile h path) (\<lambda>fileCfg. Inr (Merge cfg1 (Some fileCfg)))
             else Inr cfg1) (\<lambda>cfg2.
      Inr (Merge cfg2 (Some Default)))))"

text \<open>The last part of \<open>Load\<close>: which endpoints are on.\<close>

definition selectEndpoints :: "config \<Rightarrow> config" where
  "selectEndpoints cfg =
     (let cfg1 = (if \<not> strSet (Listen cfg) \<and> \<not> strSet (ReplicaListen cfg)
                  then cfg\<lparr>Listen := Some '':10000''\<rparr> else cfg)
      in if ReplicaListen cfg1 = Some []
         then cfg1\<lparr>ReplicaListen := None, ReplicaFallback := None\<rparr> else cfg1)"

definition LoadCfg :: "host \<Rightarrow> config option \<Rightarrow> string \<Rightarrow> cfg_error + config" where
  "LoadCfg h flagCfg path =
     bindR (mergeSources h flagCfg path) (\<lambda>cfg.
     bindR (deref (ReplicaFallback cfg)) (\<lambda>fb.
     if fb \<noteq> ReplicaFallbackMaster \<and> fb \<noteq> ReplicaFallbackReject then Inl (InvalidFallback fb)
     else
     bindR (deref (RouterMode cfg)) (\<lambda>router.
     if router \<and> boolSet (Option.bind (MasterTLS cfg) bPassthrough) then Inl RouterAndPassthrough
     else
     bindR (sentinelTLSConfig h cfg) (\<lambda>sentinel.
     bindR (listenTLSConfig h cfg) (\<lambda>lst.
     bindR (masterTLSConfig h cfg) (\<lambda>(probe, dial).
     Inr (selectEndpoints (cfg\<lparr>ctls := \<lparr>rMaster = dial, rMasterProbe = probe,
        rSentinel = sentinel, rListen = lst\<rparr>\<rparr>))))))))"

section \<open>Facts\<close>

text \<open>The sources of a load, in order; the file only when a path is given.\<close>

definition sources :: "host \<Rightarrow> config option \<Rightarrow> string \<Rightarrow> cfg_error + config list" where
  "sources h flagCfg path =
     bindR (FromEnv h) (\<lambda>envCfg.
     bindR (if path \<noteq> [] then bindR (loadFile h path) (\<lambda>f. Inr [f]) else Inr []) (\<lambda>fs.
     Inr (case_option zero_config id flagCfg # envCfg # fs @ [Default])))"

lemma mergeSources_foldl:
  "mergeSources h flagCfg path =
     bindR (sources h flagCfg path) (\<lambda>cs. Inr (foldl (\<lambda>a b. Merge a (Some b)) (hd cs) (tl cs)))"
  by (cases "FromEnv h"; cases flagCfg; cases "loadFile h path")
    (simp_all add: mergeSources_def sources_def)

lemma mergeSources_sources:
  assumes "mergeSources h flagCfg path = Inr cfg"
  obtains cs where "sources h flagCfg path = Inr cs"
    "\<And>k. lookup_setting k cfg = first_some (map (lookup_setting k) cs)" "last cs = Default"
proof -
  from assms obtain cs where cs: "sources h flagCfg path = Inr cs"
    "cfg = foldl (\<lambda>a b. Merge a (Some b)) (hd cs) (tl cs)"
    by (auto simp: mergeSources_foldl bindR_Inr_iff)
  moreover from cs(1) have "cs \<noteq> []" "last cs = Default"
    by (auto simp: sources_def bindR_Inr_iff)
  ultimately show thesis using that merge_layers.get_foldl by (metis list.collapse)
qed

lemma mergeSources_default:
  assumes "mergeSources h flagCfg path = Inr cfg" "has_default k"
  shows "lookup_setting k cfg \<noteq> None"
proof -
  from assms(1) obtain cs where cs: "sources h flagCfg path = Inr cs"
    "cfg = foldl (\<lambda>a b. Merge a (Some b)) (hd cs) (tl cs)"
    by (auto simp: mergeSources_foldl bindR_Inr_iff)
  then have "cs \<noteq> []" "last cs = Default" by (auto simp: sources_def bindR_Inr_iff)
  with cs(2) assms(2) show ?thesis
    using merge_layers.total_if_last_total [of k "hd cs" "tl cs"] Default_total by simp
qed

lemma mergeSources_complete:
  assumes "mergeSources h flagCfg path = Inr cfg"
  shows "complete_section (SentinelTLS cfg)" "complete_section (MasterTLS cfg)"
    "ReplicaFallback cfg \<noteq> None" "RouterMode cfg \<noteq> None"
  using mergeSources_default [OF assms, of KSentinelTLSServerName] mergeSources_default [OF assms, of KSentinelTLSSkipVerify]
    mergeSources_default [OF assms, of KMasterTLSServerName] mergeSources_default [OF assms, of KMasterTLSSkipVerify]
    mergeSources_default [OF assms, of KReplicaFallback] mergeSources_default [OF assms, of KRouter]
  by (auto simp: has_default_def complete_section_def bind_eq_Some_conv split: option.splits)

lemma mergeSources_no_nil [simp]: "mergeSources h flagCfg path \<noteq> Inl NilDeref"
  by (auto simp: mergeSources_def Let_def bindR_Inl_iff loadFile_def split: option.splits sum.splits yaml_error.splits)

text \<open>What a successful load went through.\<close>

lemma LoadCfg_steps:
  assumes "LoadCfg h flagCfg path = Inr c"
  obtains cfg fb router sentinel lst probe dial where "mergeSources h flagCfg path = Inr cfg"
    "ReplicaFallback cfg = Some fb" "fb = ReplicaFallbackMaster \<or> fb = ReplicaFallbackReject"
    "RouterMode cfg = Some router" "\<not> (router \<and> boolSet (Option.bind (MasterTLS cfg) bPassthrough))"
    "sentinelTLSConfig h cfg = Inr sentinel" "listenTLSConfig h cfg = Inr lst"
    "masterTLSConfig h cfg = Inr (probe, dial)"
    "c = selectEndpoints (cfg\<lparr>ctls := \<lparr>rMaster = dial, rMasterProbe = probe,
        rSentinel = sentinel, rListen = lst\<rparr>\<rparr>)"
  using assms by (auto simp: LoadCfg_def bindR_Inr_iff split: if_splits)

lemma selectEndpoints_lookup:
  "k \<notin> {KListen, KReplicaListen, KReplicaFallback} \<Longrightarrow>
     lookup_setting k (selectEndpoints (c\<lparr>ctls := t\<rparr>)) = lookup_setting k c"
  by (cases k) (simp_all add: selectEndpoints_def Let_def)

text \<open>
  What \<open>Load\<close> makes of the merged settings. A listen address counts when it is set and not
  empty: without any, the master endpoint is on at the default address; without one of the
  replica endpoint, that address and its fallback policy are absent. Every other setting stays.
\<close>

definition no_address :: "setting_value option \<Rightarrow> bool" where
  "no_address v \<longleftrightarrow> v = None \<or> v = Some (VStr [])"

definition effective :: "(setting \<Rightarrow> setting_value option) \<Rightarrow> setting \<Rightarrow> setting_value option" where
  "effective raw k =
     (if k = KListen \<and> no_address (raw KListen) \<and> no_address (raw KReplicaListen) then Some (VStr '':10000'')
      else if k \<in> {KReplicaListen, KReplicaFallback} \<and> raw KReplicaListen = Some (VStr []) then None
      else raw k)"

lemma selectEndpoints_effective:
  "lookup_setting k (selectEndpoints (c\<lparr>ctls := t\<rparr>)) = effective (\<lambda>k. lookup_setting k c) k"
proof (cases "k \<in> {KListen, KReplicaListen, KReplicaFallback}")
  case False
  then show ?thesis using selectEndpoints_lookup [OF False] by (simp add: effective_def)
next
  case True
  moreover have "strSet x \<longleftrightarrow> \<not> no_address (map_option VStr x)" "no_address (Some (VStr []))" for x
    by (cases x) (auto simp: strSet_def no_address_def)
  ultimately show ?thesis
    by (elim insertE emptyE) (simp_all add: selectEndpoints_def Let_def effective_def)
qed

lemma LoadCfg_effective:
  assumes "LoadCfg h flagCfg path = Inr c"
  obtains cs where "sources h flagCfg path = Inr cs"
    "\<And>k. lookup_setting k c = effective (\<lambda>k. first_some (map (lookup_setting k) cs)) k"
proof -
  from LoadCfg_steps [OF assms] obtain cfg t where cfg: "mergeSources h flagCfg path = Inr cfg"
    "c = selectEndpoints (cfg\<lparr>ctls := t\<rparr>)" by metis
  from mergeSources_sources [OF cfg(1)] obtain cs where cs: "sources h flagCfg path = Inr cs"
    "\<And>k. lookup_setting k cfg = first_some (map (lookup_setting k) cs)" by metis
  have "lookup_setting k c = effective (\<lambda>k. first_some (map (lookup_setting k) cs)) k" for k
    unfolding cfg(2) selectEndpoints_effective cs(2) ..
  with cs(1) show thesis by (rule that)
qed

text \<open>The one field of the configuration that no later source can set: \<open>Merge\<close> leaves it alone.\<close>

lemma mergeSources_passthrough:
  assumes "mergeSources h flagCfg path = Inr cfg"
  shows "Option.bind (SentinelTLS cfg) bPassthrough =
    Option.bind flagCfg (\<lambda>f. Option.bind (SentinelTLS f) bPassthrough)"
  using assms
  by (cases flagCfg) (auto simp: mergeSources_def bindR_Inr_iff Let_def merge_sections zero_config_def split: if_splits)

lemma selectEndpoints_frame [simp]:
  "ctls (selectEndpoints c) = ctls c" "MasterTLS (selectEndpoints c) = MasterTLS c"
  "ListenTLS (selectEndpoints c) = ListenTLS c" "SentinelTLS (selectEndpoints c) = SentinelTLS c"
  "RouterMode (selectEndpoints c) = RouterMode c"
  by (simp_all add: selectEndpoints_def Let_def)

lemma selectEndpoints_valid:
  assumes "Listen c \<noteq> None" "ReplicaListen c \<noteq> None" "ReplicaFallback c = Some fb"
  shows "strSet (Listen (selectEndpoints c)) \<or> strSet (ReplicaListen (selectEndpoints c))"
    "ReplicaListen (selectEndpoints c) \<noteq> Some []"
    "ReplicaFallback (selectEndpoints c) = (if strSet (ReplicaListen (selectEndpoints c)) then Some fb else None)"
    "strSet (Listen c) \<Longrightarrow> Listen (selectEndpoints c) = Listen c"
    "strSet (ReplicaListen c) \<Longrightarrow> ReplicaListen (selectEndpoints c) = ReplicaListen c \<and> Listen (selectEndpoints c) = Listen c"
  using assms by (auto simp: selectEndpoints_def Let_def strSet_def split: option.splits)

text \<open>What a loaded configuration holds.\<close>

lemma LoadCfg_no_nil: "LoadCfg h flagCfg path \<noteq> Inl NilDeref"
proof (cases "mergeSources h flagCfg path")
  case (Inl e)
  then show ?thesis using mergeSources_no_nil [of h flagCfg path] by (auto simp: LoadCfg_def)
next
  case (Inr cfg)
  note c = mergeSources_complete [OF Inr]
  then obtain fb router where "ReplicaFallback cfg = Some fb" "RouterMode cfg = Some router" by auto
  with Inr show ?thesis
    using sentinelTLSConfig_no_nil [OF c(1)] masterTLSConfig_no_nil [OF c(2)]
    by (auto simp: LoadCfg_def bindR_Inl_iff)
qed

lemma LoadCfg_ok:
  assumes "LoadCfg h flagCfg path = Inr c"
  shows "(strSet (Listen c) \<or> strSet (ReplicaListen c)) \<and> ReplicaListen c \<noteq> Some [] \<and>
    (strSet (ReplicaListen c) \<longrightarrow> ReplicaFallback c \<in> {Some ReplicaFallbackMaster, Some ReplicaFallbackReject}) \<and>
    (\<not> strSet (ReplicaListen c) \<longrightarrow> ReplicaFallback c = None) \<and>
    \<not> (RouterMode c = Some True \<and> boolSet (Option.bind (MasterTLS c) bPassthrough)) \<and>
    Sentinel c \<noteq> None \<and> Master c \<noteq> None \<and> RouterMode c \<noteq> None \<and> ResolveRetries c \<noteq> None \<and>
    MaxConnections c \<noteq> None \<and> IdleTimeout c \<noteq> None \<and> Debug c \<noteq> None"
proof -
  from LoadCfg_steps [OF assms] obtain cfg fb router t where cfg: "mergeSources h flagCfg path = Inr cfg"
    "ReplicaFallback cfg = Some fb" "fb = ReplicaFallbackMaster \<or> fb = ReplicaFallbackReject"
    "RouterMode cfg = Some router" "\<not> (router \<and> boolSet (Option.bind (MasterTLS cfg) bPassthrough))"
    "c = selectEndpoints (cfg\<lparr>ctls := t\<rparr>)" by metis
  note def = mergeSources_default [OF cfg(1)]
  have "Listen cfg \<noteq> None" "ReplicaListen cfg \<noteq> None"
    using def [of KListen] def [of KReplicaListen] by (auto simp: has_default_def)
  with selectEndpoints_valid [of "cfg\<lparr>ctls := t\<rparr>" fb] cfg
  have ends: "(strSet (Listen c) \<or> strSet (ReplicaListen c)) \<and> ReplicaListen c \<noteq> Some [] \<and>
    ReplicaFallback c = (if strSet (ReplicaListen c) then Some fb else None)" by simp
  have "lookup_setting k c \<noteq> None" if "has_default k" "k \<notin> {KListen, KReplicaListen, KReplicaFallback}" for k
    using def [OF that(1)] selectEndpoints_lookup [OF that(2), where c = cfg and t = t] cfg(6) by simp
  from this [of KSentinel] this [of KMaster] this [of KRouter] this [of KResolveRetries]
    this [of KMaxConnections] this [of KIdleTimeout] this [of KDebug]
  show ?thesis using ends cfg by (auto simp: has_default_def)
qed

subsection \<open>A small host to evaluate\<close>

text \<open>One variable is set; the file \<open>c.yaml\<close> sets two fields, one of them the misplaced one.\<close>

definition sample_host :: host where
  "sample_host =
     \<lparr>hReadFile = (\<lambda>f. if f = ''c.yaml'' then Some ''y'' else None), hPEM = (\<lambda>_. False),
      hKeyPair = (\<lambda>_. False),
      hEnv = (\<lambda>n. if n = ''RSP_MASTER'' then Some ''envgroup'' else None),
      hYaml = (\<lambda>_. Inr (zero_config\<lparr>Master := Some ''filegroup'',
        SentinelTLS := Some (zero_backendTLS\<lparr>bPassthrough := Some True\<rparr>)\<rparr>)),
      hFrac = (\<lambda>f n k. f * n div 10 ^ k)\<rparr>"

lemma sample_env: "FromEnv sample_host = Inr (zero_config\<lparr>Master := Some ''envgroup'',
   SentinelTLS := Some zero_backendTLS, ListenTLS := Some zero_listenTLS, MasterTLS := Some zero_backendTLS\<rparr>)"
  by (simp add: FromEnv_def boolEnv_def intEnv_def durEnv_def strEnv_def sample_host_def
      zero_config_def zero_backendTLS_def zero_listenTLS_def)

lemma sample_sources: "sources sample_host (Some f) ''c.yaml'' = Inr
   [f,
    zero_config\<lparr>Master := Some ''envgroup'', SentinelTLS := Some zero_backendTLS,
      ListenTLS := Some zero_listenTLS, MasterTLS := Some zero_backendTLS\<rparr>,
    zero_config\<lparr>Master := Some ''filegroup'',
      SentinelTLS := Some (zero_backendTLS\<lparr>bPassthrough := Some True\<rparr>)\<rparr>, Default]"
  by (simp add: sources_def sample_env loadFile_def) (simp add: sample_host_def)

lemma sample_load_router:
  "\<exists>c. LoadCfg sample_host (Some zero_config) ''c.yaml'' = Inr c \<and> RouterMode c = Some False"
  unfolding LoadCfg_def mergeSources_foldl sample_sources
  by (simp add: Merge_def Default_def zero_config_def
      mergeSentinelTLS_def mergeListenTLS_def mergeMasterTLS_def ensureBackendTLS_def ensureListenTLS_def
      zero_backendTLS_def zero_listenTLS_def sentinelTLSConfig_def listenTLSConfig_def
      masterTLSConfig_def boolSet_def strSet_def Let_def)

lemma sample_load: "\<exists>c. LoadCfg sample_host (Some zero_config) ''c.yaml'' = Inr c"
  using sample_load_router by blast

section \<open>Properties\<close>

text \<open>
  C16. Precedence: in a loaded configuration every setting that has a flag or a variable has the
  value of the first source that sets it, in the order flag, environment variable,
  configuration file, built-in default; only then are the endpoints selected, the default listen
  address used when both addresses are empty and an empty replica endpoint dropped with its
  fallback policy. The one field that does not follow the order is the pass-through of the
  sentinel section, which \<open>Merge\<close> does not carry over: it is what the first source alone says.
\<close>

theorem Load_precedence:
  assumes "LoadCfg h flagCfg path = Inr c"
  shows "\<exists>cs. sources h flagCfg path = Inr cs \<and>
    (\<forall>k. lookup_setting k c = effective (\<lambda>k. first_some (map (lookup_setting k) cs)) k) \<and>
    Option.bind (SentinelTLS c) bPassthrough =
      Option.bind flagCfg (\<lambda>f. Option.bind (SentinelTLS f) bPassthrough)"
proof -
  from LoadCfg_steps [OF assms] obtain cfg t where cfg: "mergeSources h flagCfg path = Inr cfg"
    "c = selectEndpoints (cfg\<lparr>ctls := t\<rparr>)" by metis
  from LoadCfg_effective [OF assms] obtain cs where "sources h flagCfg path = Inr cs"
    "\<And>k. lookup_setting k c = effective (\<lambda>k. first_some (map (lookup_setting k) cs)) k" by metis
  then show ?thesis using cfg mergeSources_passthrough [OF cfg(1)] by simp
qed

theorem Load_precedence_witness:
  "\<exists>c. LoadCfg sample_host (Some zero_config) ''c.yaml'' = Inr c \<and>
    lookup_setting KMaster c = Some (VStr ''envgroup'') \<and> lookup_setting KMaxConnections c = Some (VInt 100) \<and>
    lookup_setting KListen c = Some (VStr '':10000'') \<and> lookup_setting KReplicaListen c = None \<and>
    Option.bind (SentinelTLS c) bPassthrough = None"
proof -
  obtain c where c: "LoadCfg sample_host (Some zero_config) ''c.yaml'' = Inr c" using sample_load by blast
  note P = Load_precedence [OF c, unfolded sample_sources]
  have "lookup_setting KMaster c = Some (VStr ''envgroup'')"
    using P by (simp add: zero_config_def effective_def)
  moreover have "lookup_setting KMaxConnections c = Some (VInt 100)" "lookup_setting KListen c = Some (VStr '':10000'')"
    "lookup_setting KReplicaListen c = None"
    using P by (simp_all add: zero_config_def Default_def effective_def no_address_def)
  moreover have "Option.bind (SentinelTLS c) bPassthrough = None" using P by (simp add: zero_config_def)
  ultimately show ?thesis using c by blast
qed

text \<open>
  C34. A loaded configuration is valid: at least one endpoint has an address, a replica
  endpoint has a legal fallback policy and its absence has none, the router is never
  combined with TLS pass-through, and every setting the program dereferences is there.
\<close>

theorem Load_valid:
  assumes "LoadCfg h flagCfg path = Inr c"
  shows "(strSet (Listen c) \<or> strSet (ReplicaListen c)) \<and> ReplicaListen c \<noteq> Some [] \<and>
    (strSet (ReplicaListen c) \<longrightarrow> ReplicaFallback c \<in> {Some ReplicaFallbackMaster, Some ReplicaFallbackReject}) \<and>
    (\<not> strSet (ReplicaListen c) \<longrightarrow> ReplicaFallback c = None) \<and>
    \<not> (RouterMode c = Some True \<and> boolSet (Option.bind (MasterTLS c) bPassthrough)) \<and>
    Sentinel c \<noteq> None \<and> Master c \<noteq> None \<and> RouterMode c \<noteq> None \<and> ResolveRetries c \<noteq> None \<and>
    MaxConnections c \<noteq> None \<and> IdleTimeout c \<noteq> None \<and> Debug c \<noteq> None"
  using LoadCfg_ok [OF assms] .

theorem Load_valid_witness:
  "\<exists>c. LoadCfg sample_host (Some zero_config) ''c.yaml'' = Inr c \<and>
    (strSet (Listen c) \<or> strSet (ReplicaListen c)) \<and> Sentinel c \<noteq> None"
proof -
  obtain c where c: "LoadCfg sample_host (Some zero_config) ''c.yaml'' = Inr c" using sample_load by blast
  with Load_valid [OF c] show ?thesis by blast
qed

text \<open>
  C35. TLS of a loaded configuration: every setup requires at least TLS 1.2; a client CA
  makes client certificates mandatory; the data connection to the master uses the same
  setup as the role probe, or, in pass-through mode, none.
\<close>

theorem Load_TLS:
  assumes "LoadCfg h flagCfg path = Inr c"
  shows "(\<forall>t. t \<in> set_option (SentinelTLSConfig c) \<union> set_option (ListenTLSConfig c) \<union>
        set_option (MasterProbeTLSConfig c) \<union> set_option (MasterTLSConfig c) \<longrightarrow> tMinVersion t = VersionTLS12) \<and>
    (\<forall>t. ListenTLSConfig c = Some t \<longrightarrow>
        tRequireClientCert t = strSet (Option.bind (ListenTLS c) lClientCAFile) \<and> length (tCertificates t) = 1) \<and>
    MasterTLSConfig c = (if boolSet (Option.bind (MasterTLS c) bPassthrough) then None else MasterProbeTLSConfig c)"
proof -
  from LoadCfg_steps [OF assms] obtain cfg sentinel lst probe dial where cfg:
    "sentinelTLSConfig h cfg = Inr sentinel" "listenTLSConfig h cfg = Inr lst"
    "masterTLSConfig h cfg = Inr (probe, dial)"
    "c = selectEndpoints (cfg\<lparr>ctls := \<lparr>rMaster = dial, rMasterProbe = probe,
        rSentinel = sentinel, rListen = lst\<rparr>\<rparr>)" by metis
  have s: "\<forall>t. sentinel = Some t \<longrightarrow> tMinVersion t = VersionTLS12"
    using cfg(1) sentinelTLSConfig_Some clientTLSConfig_ok(1) by blast
  have l: "\<forall>t. lst = Some t \<longrightarrow> tMinVersion t = VersionTLS12 \<and> length (tCertificates t) = 1 \<and>
    tRequireClientCert t = strSet (Option.bind (ListenTLS cfg) lClientCAFile)"
    using cfg(2) by (auto elim: listenTLSConfig_Some)
  have m: "(\<forall>t. probe = Some t \<longrightarrow> tMinVersion t = VersionTLS12) \<and>
    dial = (if boolSet (Option.bind (MasterTLS cfg) bPassthrough) then None else probe)"
    using cfg(3) masterTLSConfig_Some [of h cfg probe dial] masterTLSConfig_None [of h cfg dial]
      clientTLSConfig_ok(1) by (cases probe) fastforce+
  show ?thesis
    using s l m cfg(4)
    by (auto simp: SentinelTLSConfig_def ListenTLSConfig_def MasterProbeTLSConfig_def MasterTLSConfig_def
        split: if_splits)
qed

theorem Load_TLS_witness:
  "\<exists>c. LoadCfg sample_host (Some zero_config) ''c.yaml'' = Inr c \<and>
    MasterTLSConfig c = (if boolSet (Option.bind (MasterTLS c) bPassthrough) then None else MasterProbeTLSConfig c)"
proof -
  obtain c where c: "LoadCfg sample_host (Some zero_config) ''c.yaml'' = Inr c" using sample_load by blast
  with Load_TLS [OF c] show ?thesis by blast
qed

text \<open>
  A \<open>passthrough\<close> in the sentinel section of the configuration file is silently
  ignored: \<open>Merge\<close> does not carry the field over, so the error that
  \<open>sentinelTLSConfig\<close> has for it is never reported unless the flags themselves carry it,
  which no flag does.
\<close>

theorem sentinel_passthrough_never_reported:
  assumes "Option.bind flagCfg (\<lambda>c. Option.bind (SentinelTLS c) bPassthrough) = None"
  shows "LoadCfg h flagCfg path \<noteq> Inl SentinelPassthrough"
proof
  have "loadFile h path \<noteq> Inl SentinelPassthrough"
    by (simp add: loadFile_def split: option.split sum.split yaml_error.split)
  then have ms: "mergeSources h flagCfg path \<noteq> Inl SentinelPassthrough"
    by (auto simp: mergeSources_def Let_def bindR_Inl_iff split: if_splits)
  assume "LoadCfg h flagCfg path = Inl SentinelPassthrough"
  then obtain cfg where cfg: "mergeSources h flagCfg path = Inr cfg"
    "sentinelTLSConfig h cfg = Inl SentinelPassthrough"
    using ms by (auto simp: LoadCfg_def bindR_Inl_iff deref_def split: option.splits if_splits)
  have "Option.bind (SentinelTLS cfg) bPassthrough = None"
    using mergeSources_passthrough [OF cfg(1)] assms by simp
  with cfg(2) show False by (simp add: sentinelTLSConfig_passthrough boolSet_def)
qed

theorem sentinel_passthrough_never_reported_witness:
  "loadFile sample_host ''c.yaml'' = Inr (zero_config\<lparr>Master := Some ''filegroup'',
     SentinelTLS := Some (zero_backendTLS\<lparr>bPassthrough := Some True\<rparr>)\<rparr>) \<and>
   LoadCfg sample_host (Some zero_config) ''c.yaml'' \<noteq> Inl SentinelPassthrough"
  using sentinel_passthrough_never_reported [of "Some zero_config" sample_host "''c.yaml''"]
  by (simp add: loadFile_def sample_host_def zero_config_def)

text \<open>
  C40. What \<open>String\<close> prints (and \<open>main\<close> logs at startup) holds no password: a non-empty
  sentinel or master password is replaced by the mask in what is handed to the encoder, and
  the text, whatever the encoder, is the same for any two non-empty passwords.
\<close>

theorem String_hides_passwords:
  "Password (printed c) \<in> {None, Some [], Some masked} \<and>
   MasterPassword (printed c) \<in> {None, Some [], Some masked} \<and>
   printed (c\<lparr>Password := Some (x # p), MasterPassword := Some (y # q)\<rparr>) =
     printed (c\<lparr>Password := Some (x' # p'), MasterPassword := Some (y' # q')\<rparr>) \<and>
   Config_String marshal (c\<lparr>Password := Some (x # p), MasterPassword := Some (y # q)\<rparr>) =
     Config_String marshal (c\<lparr>Password := Some (x' # p'), MasterPassword := Some (y' # q')\<rparr>)"
  by (auto simp: Config_String_def printed_def strSet_def masked_def split: option.splits)

text \<open>
  The startup log can hide a TLS setup that is in effect: with only a CA file in the
  master section, \<open>masterTLSConfig\<close> originates TLS (any option implies it) while \<open>String\<close>
  prints no master section at all.
\<close>

theorem String_hides_implied_master_TLS:
  assumes "MasterTLS c = Some m" "\<not> boolSet (bEnabled m)" "\<not> boolSet (bPassthrough m)"
    "strSet (bCAFile m)" "masterTLSConfig h c = Inr (probe, dial)"
  shows "dial \<noteq> None \<and> MasterTLS (printed c) = None"
  using assms by (auto simp: masterTLSConfig_def printed_def bindR_Inr_iff Let_def split: if_splits)

theorem String_hides_implied_master_TLS_witness:
  "\<exists>dial. masterTLSConfig (sample_host\<lparr>hPEM := (\<lambda>_. True)\<rparr>)
      (Default\<lparr>MasterTLS := map_option (\<lambda>m. m\<lparr>bCAFile := Some ''c.yaml''\<rparr>) (MasterTLS Default)\<rparr>) = Inr (dial, dial) \<and>
    dial \<noteq> None \<and>
    MasterTLS (printed (Default\<lparr>MasterTLS := map_option (\<lambda>m. m\<lparr>bCAFile := Some ''c.yaml''\<rparr>) (MasterTLS Default)\<rparr>)) = None"
proof -
  let ?c = "Default\<lparr>MasterTLS := map_option (\<lambda>m. m\<lparr>bCAFile := Some ''c.yaml''\<rparr>) (MasterTLS Default)\<rparr>"
  let ?h = "sample_host\<lparr>hPEM := (\<lambda>_. True)\<rparr>"
  obtain t where t: "masterTLSConfig ?h ?c = Inr (Some t, Some t)"
    by (simp add: masterTLSConfig_def Default_def boolSet_def strSet_def clientTLSConfig_def Let_def
        loadCertPool_def sample_host_def)
  obtain m where m: "MasterTLS ?c = Some m" "\<not> boolSet (bEnabled m)" "\<not> boolSet (bPassthrough m)"
    "strSet (bCAFile m)" by (simp add: Default_def boolSet_def strSet_def)
  from String_hides_implied_master_TLS [OF m t] t show ?thesis by blast
qed

end
