(* ===== verification/Resolver.thy ===== *)
theory Resolver
  imports Gonet Load "HOL-Library.Word" "HOL-Library.Multiset"
begin

text \<open>
  \<open>pkg/master_resolver\<close>: the component that asks sentinel for the master and the replicas,
  checks what it is told and keeps the addresses the proxy dials.

  What the resolver sees of the outside during one resolve attempt is a record \<open>world\<close>: the
  answers of the sentinel client and of the \<open>ROLE\<close> probes (\<open>go-redis\<close>, third party), of
  the name service and of the clock. An attempt is atomic in the model; the goroutines that
  share the resolver interleave between attempts. Times are in nanoseconds.
\<close>

section \<open>Definitions\<close>

subsection \<open>The outside\<close>

text \<open>\<open>redis.Options\<close>, the fields that \<open>clientOptions\<close> sets.\<close>

record redisOptions =
  oAddr :: string
  oUsername :: string
  oPassword :: string
  oTLSConfig :: "tlsConfig option"
  oDialTimeout :: int
  oReadTimeout :: int
  oWriteTimeout :: int
  oMaxRetries :: int
  oPoolSize :: int
  oDisableIdentity :: bool

record sentinelClient =
  scOptions :: redisOptions
  scClosed :: bool

datatype redis_error = RedisNil | RedisErr string

text \<open>An element of a reply, as far as \<open>reply[0].(string)\<close> looks at it.\<close>

datatype redis_value = VString string | VOther

text \<open>The errors of \<open>net.ResolveTCPAddr\<close>: a \<open>net.DNSError\<close> with \<open>IsNotFound\<close>, or another.\<close>

datatype resolve_failure = DNSNotFound | OtherResolve

text \<open>
  One attempt's view: \<open>GetMasterAddrByName\<close> and \<open>Replicas\<close> of the sentinel client,
  \<open>net.ResolveTCPAddr\<close>, the reply to \<open>ROLE\<close> of a client with given options, the clock, and
  the reverse lookup of an IP with the time at which its answer is in.
\<close>

record world =
  wMaster :: "sentinelClient \<Rightarrow> string \<Rightarrow> redis_error + string list"
  wReplicas :: "sentinelClient \<Rightarrow> string \<Rightarrow> redis_error + (string \<rightharpoonup> string) list"
  wResolve :: "string \<Rightarrow> resolve_failure + tcpAddr"
  wRole :: "redisOptions \<Rightarrow> redis_error + redis_value list"
  wNow :: int
  wPTR :: "string \<Rightarrow> string list option \<times> int"

subsection \<open>Errors\<close>

datatype role_error =
    QueryingROLE redis_error
  | EmptyROLE
  | UnexpectedROLE
  | NotA string string

datatype resolve_error =
    NilReply
  | FromSentinel redis_error
  | WrongLength nat
  | EmptyAddress string string
  | PlaceholderHost string
  | InvalidPort string
  | HostNotFound
  | ResolvingNode
  | CheckingMaster role_error
  | GettingReplicas redis_error

text \<open>\<open>errors.Is(err, errSentinelNotReady)\<close>: the errors that wrap it.\<close>

fun NotReady :: "resolve_error \<Rightarrow> bool" where
  "NotReady (PlaceholderHost _) = True"
| "NotReady HostNotFound = True"
| "NotReady _ = False"

subsection \<open>Time\<close>

definition sentinelNotReadyBackoff :: int where "sentinelNotReadyBackoff = 10 * Second"
definition refreshThrottle :: int where "refreshThrottle = Second"
definition resolveFailureBackoffCap :: int where "resolveFailureBackoffCap = 30 * Second"
definition ptrCacheTTL :: int where "ptrCacheTTL = 60 * Second"

definition ResolveFailureBackoff :: "int \<Rightarrow> int" where
  "ResolveFailureBackoff errCount =
     (if errCount < 1 then Second
      else if 5 < errCount then resolveFailureBackoffCap
      else min (push_bit (nat (errCount - 1)) Second) resolveFailureBackoffCap)"

subsection \<open>The cache of reverse lookups\<close>

record ptrEntry =
  peName :: string
  peWhen :: int

type_synonym ptrCache = "string \<rightharpoonup> ptrEntry"

definition newPTRCache :: ptrCache where "newPTRCache = Map.empty"

text \<open>The loop of \<open>pickPTRName\<close>, with the best name so far.\<close>

fun pickPTRName_loop :: "string \<Rightarrow> string \<Rightarrow> string list \<Rightarrow> string" where
  "pickPTRName_loop dashed best [] = best"
| "pickPTRName_loop dashed best (name0 # names) =
     (let name = TrimSuffix name0 ''.'';
          best' = (if best = [] then name else best)
      in if \<not> HasPrefix name dashed then name else pickPTRName_loop dashed best' names)"

definition dashedIP :: "string \<Rightarrow> string" where
  "dashedIP ip = map (\<lambda>c. if c = CHR ''.'' \<or> c = CHR '':'' then CHR ''-'' else c) ip @ ''.''"

definition pickPTRName :: "string \<Rightarrow> string list \<Rightarrow> string" where
  "pickPTRName ip names = pickPTRName_loop (dashedIP ip) [] names"

definition ptrLookup :: "world \<Rightarrow> ptrCache \<Rightarrow> string \<Rightarrow> string \<times> ptrCache" where
  "ptrLookup w c ip =
     (case c ip of
        Some e \<Rightarrow>
          if wNow w - peWhen e < ptrCacheTTL then (peName e, c)
          else (case wPTR w ip of (names, t) \<Rightarrow>
            let name = (case names of None \<Rightarrow> [] | Some ns \<Rightarrow> pickPTRName ip ns)
            in (name, c(ip \<mapsto> \<lparr>peName = name, peWhen = t\<rparr>)))
      | None \<Rightarrow> (case wPTR w ip of (names, t) \<Rightarrow>
            let name = (case names of None \<Rightarrow> [] | Some ns \<Rightarrow> pickPTRName ip ns)
            in (name, c(ip \<mapsto> \<lparr>peName = name, peWhen = t\<rparr>))))"

subsection \<open>The resolver\<close>

datatype log_entry =
    LogMaster string
  | LogMasterChanged string string
  | LogReplicasChanged "string list" "string list"
  | LogError resolve_error
  | LogReplicasError resolve_error

text \<open>
  \<open>RedisMasterResolver\<close>; \<open>initialDone\<close> is that the channel \<open>initialMasterResolveLock\<close> is
  closed, \<open>logged\<close> is what \<open>log.Printf\<close> has been given, \<open>lastRefresh = None\<close> the zero
  \<open>time.Time\<close>.
\<close>

record resolver =
  masterName :: string
  sentinel :: sentinelClient
  masterTLSConf :: "tlsConfig option"
  masterUsername :: string
  masterPassword :: string
  retryOnMasterResolveFail :: int
  trackReplicas :: bool
  initialDone :: bool
  lastRefresh :: "int option"
  masterAddr :: string
  masterDisplay :: string
  replicaAddrs :: "string list"
  replicaNames :: "string list"
  replicaIdx :: "64 word"
  ptrs :: ptrCache
  logged :: "log_entry list"

definition log_Print :: "log_entry \<Rightarrow> resolver \<Rightarrow> resolver" where
  "log_Print l r = r\<lparr>logged := logged r @ [l]\<rparr>"

definition clientOptions :: "string \<Rightarrow> string \<Rightarrow> string \<Rightarrow> tlsConfig option \<Rightarrow> redisOptions" where
  "clientOptions addr username password tlsConf =
     \<lparr>oAddr = addr, oUsername = username, oPassword = password, oTLSConfig = tlsConf,
      oDialTimeout = Second, oReadTimeout = Second, oWriteTimeout = Second,
      oMaxRetries = - 1, oPoolSize = 1, oDisableIdentity = True\<rparr>"

definition NewRedisMasterResolver :: "config \<Rightarrow> cfg_error + resolver" where
  "NewRedisMasterResolver cfg =
     (let username = (case Username cfg of None \<Rightarrow> [] | Some u \<Rightarrow> u);
          password = (case Password cfg of None \<Rightarrow> [] | Some p \<Rightarrow> p);
          mUsername = (case MasterUsername cfg of None \<Rightarrow> username | Some u \<Rightarrow> u);
          mPassword = (case MasterPassword cfg of None \<Rightarrow> password | Some p \<Rightarrow> p)
      in bindR (deref (Master cfg)) (\<lambda>name.
         bindR (deref (Sentinel cfg)) (\<lambda>sent.
         bindR (deref (ResolveRetries cfg)) (\<lambda>retries.
         Inr \<lparr>masterName = name,
              sentinel = \<lparr>scOptions = clientOptions sent username password (SentinelTLSConfig cfg),
                          scClosed = False\<rparr>,
              masterTLSConf = MasterProbeTLSConfig cfg,
              masterUsername = mUsername,
              masterPassword = mPassword,
              retryOnMasterResolveFail = retries,
              trackReplicas = (case ReplicaListen cfg of None \<Rightarrow> False | Some l \<Rightarrow> l \<noteq> []),
              initialDone = False,
              lastRefresh = None,
              masterAddr = [],
              masterDisplay = [],
              replicaAddrs = [],
              replicaNames = [],
              replicaIdx = 0,
              ptrs = newPTRCache,
              logged = []\<rparr>))))"

definition displayName :: "world \<Rightarrow> string \<Rightarrow> string \<Rightarrow> tcpAddr \<Rightarrow> resolver \<Rightarrow> string \<times> resolver" where
  "displayName w host port addr r =
     (case (if ParseIP host \<noteq> None
            then (case ptrLookup w (ptrs r) (aIP addr) of (n, c) \<Rightarrow> (n, r\<lparr>ptrs := c\<rparr>))
            else (host, r)) of
        (name, r') \<Rightarrow>
          (if name = [] then TCPAddr_String addr
           else JoinHostPort name port @ '' ('' @ aIP addr @ '')'', r'))"

subsection \<open>Checking what sentinel says\<close>

definition usableTCPAddr :: "world \<Rightarrow> string \<Rightarrow> string \<Rightarrow> resolve_error + tcpAddr" where
  "usableTCPAddr w host port =
     (if host = [] \<or> port = [] then Inl (EmptyAddress host port)
      else if (case ParseIP host of None \<Rightarrow> False | Some ip \<Rightarrow> IsUnspecified ip)
      then Inl (PlaceholderHost host)
      else if (case Atoi port of Inl _ \<Rightarrow> True | Inr portNum \<Rightarrow> portNum < 1 \<or> 65535 < portNum)
      then Inl (InvalidPort port)
      else case wResolve w (JoinHostPort host port) of
             Inl DNSNotFound \<Rightarrow> Inl HostNotFound
           | Inl OtherResolve \<Rightarrow> Inl ResolvingNode
           | Inr addr \<Rightarrow> Inr addr)"

definition checkRole :: "world \<Rightarrow> resolver \<Rightarrow> tcpAddr \<Rightarrow> string \<Rightarrow> role_error option" where
  "checkRole w r addr wantRole =
     (case wRole w (clientOptions (TCPAddr_String addr) (masterUsername r) (masterPassword r) (masterTLSConf r)) of
        Inl e \<Rightarrow> Some (QueryingROLE e)
      | Inr [] \<Rightarrow> Some EmptyROLE
      | Inr (VOther # _) \<Rightarrow> Some UnexpectedROLE
      | Inr (VString role # _) \<Rightarrow> if role \<noteq> wantRole then Some (NotA wantRole role) else None)"

definition resolveMasterAddress :: "world \<Rightarrow> resolver \<Rightarrow> (resolve_error + (tcpAddr \<times> string)) \<times> resolver" where
  "resolveMasterAddress w r =
     (case wMaster w (sentinel r) (masterName r) of
        Inl RedisNil \<Rightarrow> (Inl NilReply, r)
      | Inl e \<Rightarrow> (Inl (FromSentinel e), r)
      | Inr reply \<Rightarrow>
          (case reply of
             [host, port] \<Rightarrow>
               (case usableTCPAddr w host port of
                  Inl e \<Rightarrow> (Inl e, r)
                | Inr addr \<Rightarrow>
                    (case checkRole w r addr ''master'' of
                       Some e \<Rightarrow> (Inl (CheckingMaster e), r)
                     | None \<Rightarrow> (case displayName w host port addr r of
                                  (name, r') \<Rightarrow> (Inr (addr, name), r'))))
           | _ \<Rightarrow> (Inl (WrongLength (length reply)), r)))"

text \<open>A missing key of a Go map reads as the empty string.\<close>

definition field :: "(string \<rightharpoonup> string) \<Rightarrow> string \<Rightarrow> string" where
  "field fs k = (case fs k of None \<Rightarrow> [] | Some v \<Rightarrow> v)"

definition flaggedDown :: "(string \<rightharpoonup> string) \<Rightarrow> bool" where
  "flaggedDown fs \<longleftrightarrow>
     Contains (field fs ''flags'') ''s_down'' \<or> Contains (field fs ''flags'') ''o_down'' \<or>
     Contains (field fs ''flags'') ''disconnected''"

definition linkDown :: "(string \<rightharpoonup> string) \<Rightarrow> bool" where
  "linkDown fs \<longleftrightarrow> (case fs ''master-link-status'' of None \<Rightarrow> False | Some l \<Rightarrow> l \<noteq> ''ok'')"

text \<open>The loop over the replicas that sentinel lists: the pairs of address and name.\<close>

fun replicas_loop :: "world \<Rightarrow> (string \<rightharpoonup> string) list \<Rightarrow> resolver \<Rightarrow> (string \<times> string) list \<times> resolver" where
  "replicas_loop w [] r = ([], r)"
| "replicas_loop w (fs # rest) r =
     (if flaggedDown fs then replicas_loop w rest r
      else if linkDown fs then replicas_loop w rest r
      else case usableTCPAddr w (field fs ''ip'') (field fs ''port'') of
             Inl _ \<Rightarrow> replicas_loop w rest r
           | Inr addr \<Rightarrow>
               if checkRole w r addr ''slave'' \<noteq> None then replicas_loop w rest r
               else (case displayName w (field fs ''ip'') (field fs ''port'') addr r of
                 (name, r1) \<Rightarrow>
                   (case replicas_loop w rest r1 of
                      (reps, r2) \<Rightarrow> ((TCPAddr_String addr, name) # reps, r2))))"

text \<open>
  The pairs are sorted by address. (\<open>slices.SortFunc\<close> may exchange entries with equal
  addresses; the addresses are the same in every such order.)
\<close>

definition resolveReplicaAddresses ::
  "world \<Rightarrow> resolver \<Rightarrow> (resolve_error + (string list \<times> string list)) \<times> resolver" where
  "resolveReplicaAddresses w r =
     (case wReplicas w (sentinel r) (masterName r) of
        Inl e \<Rightarrow> (Inl (GettingReplicas e), r)
      | Inr replicas \<Rightarrow>
          (case replicas_loop w replicas r of
             (reps, r') \<Rightarrow>
               let sorted_reps = sort_key fst reps
               in (Inr (map fst sorted_reps, map snd sorted_reps), r')))"

subsection \<open>The served addresses\<close>

definition setMasterAddress :: "tcpAddr \<Rightarrow> string \<Rightarrow> resolver \<Rightarrow> resolver" where
  "setMasterAddress a name r =
     (let addr = TCPAddr_String a;
          r1 = (if masterAddr r \<noteq> addr
                then if masterAddr r = [] then log_Print (LogMaster name) r
                     else log_Print (LogMasterChanged (masterDisplay r) name) r
                else r)
      in r1\<lparr>masterAddr := addr, masterDisplay := name\<rparr>)"

definition setReplicaAddresses :: "string list \<Rightarrow> string list \<Rightarrow> resolver \<Rightarrow> resolver" where
  "setReplicaAddresses addrs names r =
     (let r1 = (if replicaAddrs r \<noteq> addrs
                then log_Print (LogReplicasChanged (replicaNames r) names) r else r)
      in r1\<lparr>replicaAddrs := addrs, replicaNames := names\<rparr>)"

definition updateMasterAddress :: "world \<Rightarrow> resolver \<Rightarrow> resolve_error option \<times> resolver" where
  "updateMasterAddress w r =
     (case resolveMasterAddress w r of
        (Inl e, r1) \<Rightarrow> (Some e, log_Print (LogError e) r1)
      | (Inr (addr, name), r1) \<Rightarrow>
          let r2 = setMasterAddress addr name r1 in
          if trackReplicas r2 then
            (case resolveReplicaAddresses w r2 of
               (Inl e, r3) \<Rightarrow> (None, setReplicaAddresses [] [] (log_Print (LogReplicasError e) r3))
             | (Inr (addrs, names), r3) \<Rightarrow> (None, setReplicaAddresses addrs names r3))
          else (None, r2))"

text \<open>
  \<open>MasterAddress\<close> and \<open>ReplicaAddress\<close> wait for the initial resolve: \<open>None\<close> is a call
  that blocks.
\<close>

definition MasterAddress :: "resolver \<Rightarrow> string option" where
  "MasterAddress r = (if initialDone r then Some (masterAddr r) else None)"

definition ReplicaAddress :: "resolver \<Rightarrow> (string \<times> bool) option \<times> resolver" where
  "ReplicaAddress r =
     (if \<not> initialDone r then (None, r)
      else if replicaAddrs r = [] then (Some ([], False), r)
      else let r' = r\<lparr>replicaIdx := replicaIdx r + 1\<rparr>;
               idx = (replicaIdx r' - 1) mod of_nat (length (replicaAddrs r))
           in (Some (replicaAddrs r ! unat idx, True), r'))"

definition RefreshAddresses :: "world \<Rightarrow> resolver \<Rightarrow> resolver" where
  "RefreshAddresses w r =
     (if \<not> initialDone r then r
      else if (case lastRefresh r of None \<Rightarrow> False | Some t \<Rightarrow> wNow w - t < refreshThrottle) then r
      else snd (updateMasterAddress w (r\<lparr>lastRefresh := Some (wNow w)\<rparr>)))"

subsection \<open>The loops\<close>

text \<open>
  What wakes a \<open>select\<close> of the loops: the context is cancelled, or the timer fires, and
  then \<open>world\<close> is what the next attempt sees. A loop runs over the events that have
  happened so far; \<open>Waiting\<close> is that it is blocked in a \<open>select\<close>. The waits are recorded.
\<close>

datatype wake = CtxDone | Fired world

datatype outcome = Waiting | Returned "resolve_error option"

record loop_result =
  lrOutcome :: outcome
  lrResolver :: resolver
  lrWaits :: "int list"

fun initialMasterAddressResolve_loop :: "int \<Rightarrow> resolver \<Rightarrow> world \<Rightarrow> wake list \<Rightarrow> loop_result" where
  "initialMasterAddressResolve_loop errCount r w evs =
     (case updateMasterAddress w r of
        (None, r1) \<Rightarrow> \<lparr>lrOutcome = Returned None, lrResolver = r1, lrWaits = []\<rparr>
      | (Some e, r1) \<Rightarrow>
          let errCount' = (if NotReady e then errCount else errCount + 1);
              wait = (if NotReady e then sentinelNotReadyBackoff else ResolveFailureBackoff errCount')
          in if \<not> NotReady e \<and> retryOnMasterResolveFail r1 < errCount'
             then \<lparr>lrOutcome = Returned (Some e), lrResolver = r1, lrWaits = []\<rparr>
             else (case evs of
                     [] \<Rightarrow> \<lparr>lrOutcome = Waiting, lrResolver = r1, lrWaits = [wait]\<rparr>
                   | CtxDone # _ \<Rightarrow> \<lparr>lrOutcome = Returned (Some e), lrResolver = r1, lrWaits = [wait]\<rparr>
                   | Fired w' # evs' \<Rightarrow>
                       let res = initialMasterAddressResolve_loop errCount' r1 w' evs'
                       in res\<lparr>lrWaits := wait # lrWaits res\<rparr>))"

text \<open>The deferred \<open>close(r.initialMasterResolveLock)\<close> runs on every return.\<close>

definition initialMasterAddressResolve :: "resolver \<Rightarrow> world \<Rightarrow> wake list \<Rightarrow> loop_result" where
  "initialMasterAddressResolve r w evs =
     (let res = initialMasterAddressResolve_loop 0 r w evs in
      case lrOutcome res of
        Waiting \<Rightarrow> res
      | Returned _ \<Rightarrow> res\<lparr>lrResolver := (lrResolver res)\<lparr>initialDone := True\<rparr>\<rparr>)"

fun update_loop :: "int \<Rightarrow> resolve_error option \<Rightarrow> resolver \<Rightarrow> wake list \<Rightarrow> loop_result" where
  "update_loop errCount err r evs =
     (if retryOnMasterResolveFail r < errCount
      then \<lparr>lrOutcome = Returned err, lrResolver = r, lrWaits = []\<rparr>
      else case evs of
        [] \<Rightarrow> \<lparr>lrOutcome = Waiting, lrResolver = r, lrWaits = []\<rparr>
      | CtxDone # _ \<Rightarrow> \<lparr>lrOutcome = Returned None, lrResolver = r, lrWaits = []\<rparr>
      | Fired w # evs1 \<Rightarrow>
          (case updateMasterAddress w r of
             (None, r1) \<Rightarrow> update_loop 0 None r1 evs1
           | (Some e, r1) \<Rightarrow>
               let errCount' = (if NotReady e then errCount else errCount + 1);
                   wait = (if NotReady e then sentinelNotReadyBackoff else ResolveFailureBackoff errCount')
               in (case evs1 of
                     [] \<Rightarrow> \<lparr>lrOutcome = Waiting, lrResolver = r1, lrWaits = [wait]\<rparr>
                   | CtxDone # _ \<Rightarrow> \<lparr>lrOutcome = Returned None, lrResolver = r1, lrWaits = [wait]\<rparr>
                   | Fired _ # evs2 \<Rightarrow>
                       let res = update_loop errCount' (Some e) r1 evs2
                       in res\<lparr>lrWaits := wait # lrWaits res\<rparr>)))"

text \<open>
  \<open>UpdateMasterAddressLoop\<close>: the events of the initial resolve, then those of the update
  loop. The sentinel client is closed on every return.
\<close>

definition closeSentinel :: "resolver \<Rightarrow> resolver" where
  "closeSentinel r = r\<lparr>sentinel := (sentinel r)\<lparr>scClosed := True\<rparr>\<rparr>"

definition UpdateMasterAddressLoop :: "resolver \<Rightarrow> world \<Rightarrow> wake list \<Rightarrow> wake list \<Rightarrow> loop_result" where
  "UpdateMasterAddressLoop r w evs1 evs2 =
     (let res1 = initialMasterAddressResolve r w evs1;
          finish = (\<lambda>res. case lrOutcome res of
             Waiting \<Rightarrow> res
           | Returned _ \<Rightarrow> res\<lparr>lrResolver := closeSentinel (lrResolver res)\<rparr>)
      in case lrOutcome res1 of
           Waiting \<Rightarrow> res1
         | Returned (Some e) \<Rightarrow> finish res1
         | Returned None \<Rightarrow>
             (let res2 = update_loop 0 None (lrResolver res1) evs2
              in finish (res2\<lparr>lrWaits := lrWaits res1 @ lrWaits res2\<rparr>)))"

section \<open>Facts\<close>

subsection \<open>What an attempt decides, without the cache and the log\<close>

text \<open>The address or the error of the master, and the usable replicas, of one attempt.\<close>

definition master_verdict :: "world \<Rightarrow> resolver \<Rightarrow> resolve_error + string" where
  "master_verdict w r = map_sum id (\<lambda>(a, _). TCPAddr_String a) (fst (resolveMasterAddress w r))"

definition replica_address :: "world \<Rightarrow> resolver \<Rightarrow> (string \<rightharpoonup> string) \<Rightarrow> string option" where
  "replica_address w r fs =
     (if flaggedDown fs \<or> linkDown fs then None
      else case usableTCPAddr w (field fs ''ip'') (field fs ''port'') of
        Inl _ \<Rightarrow> None
      | Inr a \<Rightarrow> if checkRole w r a ''slave'' = None then Some (TCPAddr_String a) else None)"

definition usable_replicas :: "world \<Rightarrow> resolver \<Rightarrow> string list" where
  "usable_replicas w r =
     (case wReplicas w (sentinel r) (masterName r) of
        Inl _ \<Rightarrow> []
      | Inr fss \<Rightarrow> sort (List.map_filter (replica_address w r) fss))"

text \<open>The contract of the resolver: the served master and replicas, and what an attempt
  makes of them.\<close>

definition served :: "resolver \<Rightarrow> string \<times> string list" where
  "served r = (masterAddr r, replicaAddrs r)"

definition serve :: "resolver \<Rightarrow> world \<Rightarrow> string \<times> string list \<Rightarrow> string \<times> string list" where
  "serve r w old =
     (case master_verdict w r of
        Inl _ \<Rightarrow> old
      | Inr m \<Rightarrow> (m, if trackReplicas r then usable_replicas w r else snd old))"

text \<open>The fields that no attempt changes.\<close>

definition fixed_part :: "resolver \<Rightarrow> resolver" where
  "fixed_part r = r\<lparr>masterAddr := [], masterDisplay := [], replicaAddrs := [], replicaNames := [],
     ptrs := Map.empty, logged := []\<rparr>"

lemma fixed_updates [simp]:
  "fixed_part (r\<lparr>masterAddr := a\<rparr>) = fixed_part r" "fixed_part (r\<lparr>masterDisplay := d\<rparr>) = fixed_part r"
  "fixed_part (r\<lparr>replicaAddrs := as\<rparr>) = fixed_part r" "fixed_part (r\<lparr>replicaNames := ns\<rparr>) = fixed_part r"
  "fixed_part (r\<lparr>ptrs := c\<rparr>) = fixed_part r" "fixed_part (r\<lparr>logged := l\<rparr>) = fixed_part r"
  by (simp_all add: fixed_part_def)

lemma fixed_log_Print [simp]: "fixed_part (log_Print l r) = fixed_part r"
  by (simp add: log_Print_def)

lemma fixed_fields:
  assumes "fixed_part r = fixed_part r'"
  shows "masterName r = masterName r'" "sentinel r = sentinel r'" "masterTLSConf r = masterTLSConf r'"
    "masterUsername r = masterUsername r'" "masterPassword r = masterPassword r'"
    "retryOnMasterResolveFail r = retryOnMasterResolveFail r'" "trackReplicas r = trackReplicas r'"
    "initialDone r = initialDone r'" "lastRefresh r = lastRefresh r'" "replicaIdx r = replicaIdx r'"
  using assms by (cases r; cases r'; simp add: fixed_part_def)+

lemma checkRole_fixed: "fixed_part r = fixed_part r' \<Longrightarrow> checkRole w r = checkRole w r'"
  by (rule ext)+ (simp add: checkRole_def fixed_fields [of r r'])

lemma replica_address_fixed: "fixed_part r = fixed_part r' \<Longrightarrow> replica_address w r = replica_address w r'"
  by (rule ext) (simp add: replica_address_def checkRole_fixed [of r r'] split: sum.splits)

lemma usable_replicas_fixed: "fixed_part r = fixed_part r' \<Longrightarrow> usable_replicas w r = usable_replicas w r'"
  by (simp add: usable_replicas_def fixed_fields [of r r'] replica_address_fixed [of r r']
      cong: sum.case_cong)

lemma ptrs_self [simp]: "\<exists>c. r = r\<lparr>ptrs := c\<rparr>" "\<exists>c. r\<lparr>ptrs := d\<rparr> = r\<lparr>ptrs := c\<rparr>"
  by (rule exI [of _ "ptrs r"], simp) blast

lemma displayName_frame:
  "displayName w host port a r = (n, r') \<Longrightarrow> \<exists>c. r' = r\<lparr>ptrs := c\<rparr>"
  by (auto simp: displayName_def split: if_splits prod.splits)

lemma resolveMasterAddress_frame: "resolveMasterAddress w r = (x, r') \<Longrightarrow> \<exists>c. r' = r\<lparr>ptrs := c\<rparr>"
  by (auto simp: resolveMasterAddress_def split: sum.splits redis_error.splits list.splits option.splits prod.splits
      dest: displayName_frame)

lemma replicas_loop_frame:
  "replicas_loop w fss r = (reps, r') \<Longrightarrow>
     (\<exists>c. r' = r\<lparr>ptrs := c\<rparr>) \<and> map fst reps = List.map_filter (replica_address w r) fss"
proof (induction fss arbitrary: r reps r')
  case Nil
  then show ?case by (auto simp: map_filter_simps)
next
  case (Cons fs rest)
  show ?case
  proof (cases "replica_address w r fs")
    case None
    then have "replicas_loop w (fs # rest) r = replicas_loop w rest r"
      by (auto simp: replica_address_def split: sum.splits if_splits)
    with Cons.prems have "replicas_loop w rest r = (reps, r')" by metis
    from Cons.IH [OF this] None show ?thesis by (simp add: map_filter_simps)
  next
    case (Some addr)
    then obtain a where a: "\<not> flaggedDown fs" "\<not> linkDown fs"
      "usableTCPAddr w (field fs ''ip'') (field fs ''port'') = Inr a"
      "checkRole w r a ''slave'' = None" "addr = TCPAddr_String a"
      by (auto simp: replica_address_def split: sum.splits if_splits)
    obtain n r1 where d: "displayName w (field fs ''ip'') (field fs ''port'') a r = (n, r1)"
      by (cases "displayName w (field fs ''ip'') (field fs ''port'') a r")
    obtain reps1 r2 where l: "replicas_loop w rest r1 = (reps1, r2)"
      by (cases "replicas_loop w rest r1")
    from displayName_frame [OF d] obtain c1 where c1: "r1 = r\<lparr>ptrs := c1\<rparr>" by blast
    then have "replica_address w r1 = replica_address w r"
      by (intro replica_address_fixed) simp
    moreover have "(\<exists>c. r2 = r1\<lparr>ptrs := c\<rparr>) \<and> map fst reps1 = List.map_filter (replica_address w r1) rest"
      using Cons.IH [OF l] .
    moreover have "replicas_loop w (fs # rest) r = ((addr, n) # reps1, r2)"
      unfolding replicas_loop.simps by (simp add: a d l)
    with Cons.prems have "reps = (addr, n) # reps1" "r' = r2" by simp_all
    ultimately show ?thesis using c1 Some by (auto simp: map_filter_simps)
  qed
qed

lemma resolveReplicaAddresses_ok:
  assumes "resolveReplicaAddresses w r = (x, r')"
  shows "(\<exists>c. r' = r\<lparr>ptrs := c\<rparr>) \<and>
    (case x of Inl e \<Rightarrow> usable_replicas w r = []
     | Inr (as, ns) \<Rightarrow> as = usable_replicas w r \<and> length ns = length as)"
proof (cases "wReplicas w (sentinel r) (masterName r)")
  case (Inl e)
  with assms show ?thesis
    by (auto simp: resolveReplicaAddresses_def usable_replicas_def)
next
  case (Inr fss)
  obtain reps r2 where l: "replicas_loop w fss r = (reps, r2)" by (cases "replicas_loop w fss r")
  have "map fst (sort_key fst reps) = sort (map fst reps)"
    by (rule properties_for_sort [symmetric]) (simp_all add: mset_map)
  moreover have "length (map snd (sort_key fst reps)) = length (map fst (sort_key fst reps))" by simp
  moreover have "x = Inr (map fst (sort_key fst reps), map snd (sort_key fst reps))" "r' = r2"
    using assms Inr l by (simp_all add: resolveReplicaAddresses_def Let_def)
  ultimately show ?thesis
    using Inr replicas_loop_frame [OF l] by (simp add: usable_replicas_def)
qed

lemma resolveMasterAddress_fixed:
  "fixed_part r = fixed_part r' \<Longrightarrow> master_verdict w r = master_verdict w r'"
  by (simp add: master_verdict_def resolveMasterAddress_def fixed_fields [of r r'] checkRole_fixed [of r r']
      split: sum.splits redis_error.splits list.splits option.splits prod.splits)

lemma served_simps [simp]:
  "served (log_Print l r) = served r" "served (r\<lparr>ptrs := c\<rparr>) = served r"
  "served (setMasterAddress a n r) = (TCPAddr_String a, replicaAddrs r)"
  "served (setReplicaAddresses as ns r) = (masterAddr r, as)"
  by (simp_all add: served_def log_Print_def setMasterAddress_def setReplicaAddresses_def Let_def)

lemma fixed_set [simp]:
  "fixed_part (setMasterAddress a n r) = fixed_part r"
  "fixed_part (setReplicaAddresses as ns r) = fixed_part r"
  by (simp_all add: setMasterAddress_def setReplicaAddresses_def Let_def)

lemma set_fields [simp]:
  "masterAddr (setMasterAddress a n r) = TCPAddr_String a"
  "replicaAddrs (setMasterAddress a n r) = replicaAddrs r"
  "replicaNames (setMasterAddress a n r) = replicaNames r"
  "masterAddr (setReplicaAddresses as ns r) = masterAddr r"
  "replicaAddrs (setReplicaAddresses as ns r) = as"
  "replicaNames (setReplicaAddresses as ns r) = ns"
  "masterAddr (log_Print l r) = masterAddr r"
  "replicaNames (log_Print l r) = replicaNames r"
  by (simp_all add: setMasterAddress_def setReplicaAddresses_def log_Print_def Let_def)

text \<open>The whole of an attempt: what it returns, what it serves and what it leaves alone.\<close>

lemma updateMasterAddress_serves:
  assumes "updateMasterAddress w r = (e, r')"
  shows "fixed_part r' = fixed_part r" "served r' = serve r w (served r)"
    "e = (case master_verdict w r of Inl e \<Rightarrow> Some e | Inr _ \<Rightarrow> None)"
    "length (replicaNames r) = length (replicaAddrs r) \<Longrightarrow> length (replicaNames r') = length (replicaAddrs r')"
proof -
  obtain x r1 where m: "resolveMasterAddress w r = (x, r1)" by (cases "resolveMasterAddress w r")
  from resolveMasterAddress_frame [OF m] obtain c where c: "r1 = r\<lparr>ptrs := c\<rparr>" by blast
  have "fixed_part r' = fixed_part r \<and> served r' = serve r w (served r) \<and>
      e = (case master_verdict w r of Inl e \<Rightarrow> Some e | Inr _ \<Rightarrow> None) \<and>
      (length (replicaNames r) = length (replicaAddrs r) \<longrightarrow> length (replicaNames r') = length (replicaAddrs r'))"
  proof (cases x)
    case (Inl err)
    with assms m c show ?thesis
      by (auto simp: updateMasterAddress_def master_verdict_def serve_def log_Print_def served_def)
  next
    case (Inr an)
    obtain a n where an: "an = (a, n)" by (cases an)
    define r2 where "r2 = setMasterAddress a n r1"
    have f2: "fixed_part r2 = fixed_part r" by (simp add: r2_def c)
    obtain y r3 where y: "resolveReplicaAddresses w r2 = (y, r3)" by (cases "resolveReplicaAddresses w r2")
    from resolveReplicaAddresses_ok [OF y] obtain c3 where c3: "r3 = r2\<lparr>ptrs := c3\<rparr>"
      and ok: "case y of Inl e \<Rightarrow> usable_replicas w r = []
        | Inr (as, ns) \<Rightarrow> as = usable_replicas w r \<and> length ns = length as"
      using usable_replicas_fixed [OF f2] by metis
    have "(e, r') = (if trackReplicas r2 then
        (case y of Inl e \<Rightarrow> (None, setReplicaAddresses [] [] (log_Print (LogReplicasError e) r3))
         | Inr (as, ns) \<Rightarrow> (None, setReplicaAddresses as ns r3)) else (None, r2))"
      using assms m Inr an y [unfolded r2_def]
      by (cases y) (auto simp: updateMasterAddress_def r2_def Let_def)
    moreover have "masterAddr r2 = TCPAddr_String a" "replicaAddrs r2 = replicaAddrs r"
      "replicaNames r2 = replicaNames r"
      by (simp_all add: r2_def c)
    moreover have "master_verdict w r = Inr (TCPAddr_String a)"
      using m Inr an by (simp add: master_verdict_def)
    ultimately show ?thesis
      using ok c3 f2 fixed_fields(7) [OF f2]
      by (auto simp: serve_def served_def split: sum.splits prod.splits if_splits)
  qed
  then show "fixed_part r' = fixed_part r" "served r' = serve r w (served r)"
    "e = (case master_verdict w r of Inl e \<Rightarrow> Some e | Inr _ \<Rightarrow> None)"
    "length (replicaNames r) = length (replicaAddrs r) \<Longrightarrow> length (replicaNames r') = length (replicaAddrs r')"
    by blast+
qed

subsection \<open>Interleavings\<close>

text \<open>
  What the goroutines do to a shared resolver, in any order: an attempt of one of the loops,
  the closing of the channel, a refresh, a pick of the next replica, the closing of the
  sentinel client.
\<close>

datatype action = Attempt world | CloseInitial | Refresh world | PickReplica | CloseSentinel

fun act :: "action \<Rightarrow> resolver \<Rightarrow> resolver" where
  "act (Attempt w) r = snd (updateMasterAddress w r)"
| "act CloseInitial r = r\<lparr>initialDone := True\<rparr>"
| "act (Refresh w) r = RefreshAddresses w r"
| "act PickReplica r = snd (ReplicaAddress r)"
| "act CloseSentinel r = closeSentinel r"

inductive reaches :: "resolver \<Rightarrow> action list \<Rightarrow> resolver \<Rightarrow> bool" for r0 where
  start: "reaches r0 [] r0"
| step: "reaches r0 as r \<Longrightarrow> reaches r0 (as @ [a]) (act a r)"

fun action_worlds :: "action list \<Rightarrow> world set" where
  "action_worlds [] = {}"
| "action_worlds (Attempt w # as) = insert w (action_worlds as)"
| "action_worlds (Refresh w # as) = insert w (action_worlds as)"
| "action_worlds (_ # as) = action_worlds as"

lemma action_worlds_append: "action_worlds (as @ bs) = action_worlds as \<union> action_worlds bs"
  by (induction as rule: action_worlds.induct) auto

lemma reaches_foldl: "reaches r0 as (foldl (\<lambda>r a. act a r) r0 as)"
  by (induction as rule: rev_induct) (auto intro: reaches.intros)

lemma reaches_trans: "reaches r1 bs r2 \<Longrightarrow> reaches r0 as r1 \<Longrightarrow> reaches r0 (as @ bs) r2"
proof (induction rule: reaches.induct)
  case (step bs r a)
  from reaches.step [OF step.IH [OF step.prems]] show ?case by simp
qed simp

text \<open>What was configured, which no action changes.\<close>

definition configured :: "resolver \<Rightarrow> string \<times> redisOptions \<times> tlsConfig option \<times> string \<times> string \<times> int \<times> bool" where
  "configured r = (masterName r, scOptions (sentinel r), masterTLSConf r, masterUsername r,
     masterPassword r, retryOnMasterResolveFail r, trackReplicas r)"

lemma configured_fixed: "fixed_part r = fixed_part r' \<Longrightarrow> configured r = configured r'"
  by (simp add: configured_def fixed_fields [of r r'])

lemma configured_updates [simp]:
  "configured (r\<lparr>initialDone := b\<rparr>) = configured r" "configured (r\<lparr>lastRefresh := t\<rparr>) = configured r"
  "configured (r\<lparr>replicaIdx := i\<rparr>) = configured r" "configured (closeSentinel r) = configured r"
  by (simp_all add: configured_def closeSentinel_def)

lemma ReplicaAddress_frame: "ReplicaAddress r = (x, r') \<Longrightarrow> \<exists>i. r' = r\<lparr>replicaIdx := i\<rparr>"
  by (cases r) (auto simp: ReplicaAddress_def Let_def split: if_splits)

lemma configured_act [simp]: "configured (act a r) = configured r"
proof (cases a)
  case (Attempt w)
  obtain e r' where u: "updateMasterAddress w r = (e, r')" by (cases "updateMasterAddress w r")
  then have "configured r' = configured r" using updateMasterAddress_serves(1) configured_fixed by blast
  then show ?thesis using Attempt u by simp
next
  case (Refresh w)
  define r1 where "r1 = r\<lparr>lastRefresh := Some (wNow w)\<rparr>"
  obtain e r' where "updateMasterAddress w r1 = (e, r')" by (cases "updateMasterAddress w r1")
  then have "configured r' = configured r1" using updateMasterAddress_serves(1) configured_fixed by blast
  then show ?thesis
    using Refresh \<open>updateMasterAddress w r1 = (e, r')\<close> by (simp add: RefreshAddresses_def r1_def)
next
  case PickReplica
  obtain x r' where p: "ReplicaAddress r = (x, r')" by (cases "ReplicaAddress r")
  from ReplicaAddress_frame [OF p] obtain i where "r' = r\<lparr>replicaIdx := i\<rparr>" by blast
  then show ?thesis using PickReplica p by simp
qed simp_all

lemma configured_reaches: "reaches r0 as r \<Longrightarrow> configured r = configured r0"
  by (induction rule: reaches.induct) simp_all

text \<open>
  The evidence for a served address: in some world sentinel (asked through a client with the
  configured options) named the host and port, they passed the checks, and the node that
  they resolve to answered \<open>ROLE\<close> with the role, under the configured credentials.
\<close>

definition answers_role :: "world \<Rightarrow> resolver \<Rightarrow> string \<Rightarrow> string \<Rightarrow> bool" where
  "answers_role w r addr role \<longleftrightarrow>
     (\<exists>rest. wRole w (clientOptions addr (masterUsername r) (masterPassword r) (masterTLSConf r)) =
        Inr (VString role # rest))"

definition usable :: "world \<Rightarrow> string \<Rightarrow> string \<Rightarrow> string \<Rightarrow> bool" where
  "usable w host port addr \<longleftrightarrow>
     host \<noteq> [] \<and> (\<forall>ip. ParseIP host = Some ip \<longrightarrow> \<not> IsUnspecified ip) \<and>
     (\<exists>n. Atoi port = Inr n \<and> 1 \<le> n \<and> n \<le> 65535) \<and>
     (\<exists>a. wResolve w (JoinHostPort host port) = Inr a \<and> addr = TCPAddr_String a)"

definition verified_master :: "world \<Rightarrow> resolver \<Rightarrow> string \<Rightarrow> bool" where
  "verified_master w r addr \<longleftrightarrow>
     (\<exists>b host port. wMaster w ((sentinel r)\<lparr>scClosed := b\<rparr>) (masterName r) = Inr [host, port] \<and>
        usable w host port addr) \<and> answers_role w r addr ''master''"

definition verified_replica :: "world \<Rightarrow> resolver \<Rightarrow> string \<Rightarrow> bool" where
  "verified_replica w r addr \<longleftrightarrow>
     (\<exists>b fss fs. wReplicas w ((sentinel r)\<lparr>scClosed := b\<rparr>) (masterName r) = Inr fss \<and> fs \<in> set fss \<and>
        \<not> flaggedDown fs \<and> \<not> linkDown fs \<and> usable w (field fs ''ip'') (field fs ''port'') addr) \<and>
     answers_role w r addr ''slave''"

lemma sentinel_closed_self [simp]: "(sentinel r)\<lparr>scClosed := scClosed (sentinel r)\<rparr> = sentinel r"
  by simp

lemma usableTCPAddr_usable: "usableTCPAddr w host port = Inr a \<Longrightarrow> usable w host port (TCPAddr_String a)"
  by (auto simp: usableTCPAddr_def usable_def split: if_splits option.splits sum.splits resolve_failure.splits)

lemma checkRole_None: "checkRole w r a role = None \<longleftrightarrow> answers_role w r (TCPAddr_String a) role"
  by (auto simp: checkRole_def answers_role_def split: sum.splits list.splits redis_value.splits if_splits)

lemma master_verdict_verified: "master_verdict w r = Inr addr \<Longrightarrow> verified_master w r addr"
  unfolding master_verdict_def resolveMasterAddress_def verified_master_def
  by (auto split: sum.splits redis_error.splits list.splits option.splits prod.splits
      simp: checkRole_None dest!: usableTCPAddr_usable)
    (metis sentinel_closed_self)+

lemma replica_address_verified:
  assumes "addr \<in> set (usable_replicas w r)"
  shows "verified_replica w r addr"
proof -
  from assms obtain fss fs where "wReplicas w (sentinel r) (masterName r) = Inr fss" "fs \<in> set fss"
    "replica_address w r fs = Some addr"
    by (cases "wReplicas w (sentinel r) (masterName r)") (auto simp: usable_replicas_def map_filter_def)
  then show ?thesis
    by (auto simp: replica_address_def verified_replica_def checkRole_None split: if_splits sum.splits
        dest!: usableTCPAddr_usable)
      (metis sentinel_closed_self)
qed

lemma verified_configured:
  assumes "configured r = configured r0"
  shows "verified_master w r = verified_master w r0" "verified_replica w r = verified_replica w r0"
proof -
  from assms have c: "(sentinel r)\<lparr>scClosed := b\<rparr> = (sentinel r0)\<lparr>scClosed := b\<rparr>" for b
    by (cases "sentinel r"; cases "sentinel r0") (simp add: configured_def)
  show "verified_master w r = verified_master w r0" "verified_replica w r = verified_replica w r0"
    unfolding verified_master_def verified_replica_def answers_role_def c fun_eq_iff
    using assms by (simp_all add: configured_def)
qed

lemma sorted_usable_replicas [simp]: "sorted (usable_replicas w r)"
  by (simp add: usable_replicas_def split: sum.splits)

text \<open>An action serves what was served before or what one attempt found.\<close>

lemma served_lastRefresh [simp]:
  "served (r\<lparr>lastRefresh := t\<rparr>) = served r" "served (r\<lparr>initialDone := b\<rparr>) = served r"
  "served (r\<lparr>replicaIdx := i\<rparr>) = served r" "served (closeSentinel r) = served r"
  by (simp_all add: served_def closeSentinel_def)

lemma serve_cases:
  obtains "serve r w old = old"
  | m where "master_verdict w r = Inr m"
      "serve r w old = (m, if trackReplicas r then usable_replicas w r else snd old)"
  by (cases "master_verdict w r") (simp_all add: serve_def)

lemma aligned_simps [simp]:
  "replicaNames (closeSentinel r) = replicaNames r" "replicaAddrs (closeSentinel r) = replicaAddrs r"
  by (simp_all add: closeSentinel_def)

lemma RefreshAddresses_cases:
  obtains "RefreshAddresses w r = r"
  | "initialDone r" "RefreshAddresses w r = snd (updateMasterAddress w (r\<lparr>lastRefresh := Some (wNow w)\<rparr>))"
  unfolding RefreshAddresses_def by presburger

lemma act_served:
  obtains "served (act a r) = served r"
  | w r1 where "w \<in> action_worlds [a]" "configured r1 = configured r" "served r1 = served r"
      "served (act a r) = serve r1 w (served r)"
proof (cases a)
  case (Attempt w)
  obtain e r' where "updateMasterAddress w r = (e, r')" by (cases "updateMasterAddress w r")
  then show thesis
    using that(2) [of w r] updateMasterAddress_serves(2) [of w r e r'] Attempt by simp
next
  case (Refresh w)
  define r1 where "r1 = r\<lparr>lastRefresh := Some (wNow w)\<rparr>"
  obtain e r' where u: "updateMasterAddress w r1 = (e, r')" by (cases "updateMasterAddress w r1")
  have "served r' = serve r1 w (served r1)" by (rule updateMasterAddress_serves(2) [OF u])
  then show thesis
    using that(1) that(2) [of w r1] Refresh u
    by (cases rule: RefreshAddresses_cases [of w r]) (simp_all add: r1_def)
next
  case PickReplica
  obtain x r' where "ReplicaAddress r = (x, r')" by (cases "ReplicaAddress r")
  then show thesis using ReplicaAddress_frame [of r x r'] PickReplica that(1) by auto
qed (use that(1) in simp_all)

lemma act_aligned:
  assumes "length (replicaNames r) = length (replicaAddrs r)"
  shows "length (replicaNames (act a r)) = length (replicaAddrs (act a r))"
proof (cases a)
  case (Attempt w)
  then show ?thesis
    using assms updateMasterAddress_serves(4) [of w r "fst (updateMasterAddress w r)" "snd (updateMasterAddress w r)"]
    by simp
next
  case (Refresh w)
  define r1 where "r1 = r\<lparr>lastRefresh := Some (wNow w)\<rparr>"
  show ?thesis
    using assms updateMasterAddress_serves(4) [of w r1 "fst (updateMasterAddress w r1)" "snd (updateMasterAddress w r1)"]
      Refresh by (simp add: RefreshAddresses_def r1_def)
next
  case PickReplica
  obtain x r' where "ReplicaAddress r = (x, r')" by (cases "ReplicaAddress r")
  then show ?thesis using ReplicaAddress_frame [of r x r'] PickReplica assms by auto
qed (use assms in simp_all)

text \<open>The invariant of a resolver that started as \<open>r0\<close> and saw the worlds \<open>ws\<close>.\<close>

definition serves_verified :: "resolver \<Rightarrow> world set \<Rightarrow> resolver \<Rightarrow> bool" where
  "serves_verified r0 ws r \<longleftrightarrow>
     (masterAddr r \<noteq> [] \<longrightarrow> (\<exists>w\<in>ws. verified_master w r0 (masterAddr r))) \<and>
     (\<forall>a\<in>set (replicaAddrs r). \<exists>w\<in>ws. verified_replica w r0 a) \<and>
     sorted (replicaAddrs r) \<and> length (replicaNames r) = length (replicaAddrs r) \<and>
     (\<not> trackReplicas r0 \<longrightarrow> replicaAddrs r = [])"

lemma serves_verified_act:
  assumes "serves_verified r0 ws r" "configured r = configured r0"
  shows "serves_verified r0 (ws \<union> action_worlds [a]) (act a r)"
proof (rule act_served [of a r])
  assume "served (act a r) = served r"
  with assms act_aligned [of r a] show ?thesis by (fastforce simp: serves_verified_def served_def)
next
  fix w r1
  assume w: "w \<in> action_worlds [a]" and c: "configured r1 = configured r" and s: "served r1 = served r"
    and e: "served (act a r) = serve r1 w (served r)"
  have v: "verified_master w r1 = verified_master w r0" "verified_replica w r1 = verified_replica w r0"
    using verified_configured [of r1 r0 w] c assms(2) by simp_all
  have t: "trackReplicas r1 = trackReplicas r0" using c assms(2) by (simp add: configured_def)
  show ?thesis
  proof (rule serve_cases [of r1 w "served r"])
    assume "serve r1 w (served r) = served r"
    with e assms act_aligned [of r a] show ?thesis by (fastforce simp: serves_verified_def served_def)
  next
    fix m assume m: "master_verdict w r1 = Inr m"
      "serve r1 w (served r) = (m, if trackReplicas r1 then usable_replicas w r1 else snd (served r))"
    have "masterAddr (act a r) = m"
      "replicaAddrs (act a r) = (if trackReplicas r0 then usable_replicas w r1 else [])"
      using e m t assms(1) by (auto simp: served_def serves_verified_def)
    with assms act_aligned [of r a] master_verdict_verified [OF m(1)] w v
    show ?thesis by (auto simp: serves_verified_def dest!: replica_address_verified)
  qed
qed

lemma New_fresh:
  "NewRedisMasterResolver cfg = Inr r \<Longrightarrow>
     masterAddr r = [] \<and> replicaAddrs r = [] \<and> replicaNames r = [] \<and> \<not> initialDone r \<and> lastRefresh r = None"
  by (auto simp: NewRedisMasterResolver_def Let_def bindR_Inr_iff)

lemma reaches_serves_verified:
  assumes "reaches r0 as r" "serves_verified r0 {} r0"
  shows "serves_verified r0 (action_worlds as) r"
  using assms
proof (induction rule: reaches.induct)
  case (step as r a)
  then show ?case
    using serves_verified_act [of r0 "action_worlds as" r a] configured_reaches
    by (simp add: action_worlds_append)
qed simp

subsection \<open>The loops\<close>

declare initialMasterAddressResolve_loop.simps [simp del] update_loop.simps [simp del]

text \<open>The worlds of the events, and what an attempt in a world decides.\<close>

fun fired :: "wake list \<Rightarrow> world list" where
  "fired [] = []"
| "fired (CtxDone # evs) = fired evs"
| "fired (Fired w # evs) = w # fired evs"

definition fails :: "resolver \<Rightarrow> world \<Rightarrow> bool" where
  "fails r w \<longleftrightarrow> (\<exists>e. master_verdict w r = Inl e)"

definition hard_errors :: "resolver \<Rightarrow> world list \<Rightarrow> resolve_error list" where
  "hard_errors r ws =
     List.map_filter (\<lambda>w. case master_verdict w r of Inl e \<Rightarrow> if NotReady e then None else Some e | Inr _ \<Rightarrow> None) ws"

lemma fails_fixed: "fixed_part r = fixed_part r' \<Longrightarrow> fails r = fails r'"
  by (rule ext) (simp add: fails_def resolveMasterAddress_fixed [of r r'])

lemma hard_errors_fixed: "fixed_part r = fixed_part r' \<Longrightarrow> hard_errors r = hard_errors r'"
  by (rule ext) (simp add: hard_errors_def resolveMasterAddress_fixed [of r r'])

lemma hard_errors_simps [simp]:
  "hard_errors r [] = []"
  "hard_errors r (w # ws) =
     (case master_verdict w r of Inl e \<Rightarrow> if NotReady e then hard_errors r ws else e # hard_errors r ws
      | Inr _ \<Rightarrow> hard_errors r ws)"
  by (simp_all add: hard_errors_def map_filter_simps split: sum.splits)

text \<open>
  The outcome of the initial resolve: with \<open>n\<close> failures behind it, it stops at the first
  success, or at the hard failure that exceeds the budget, whichever comes first.
\<close>

definition initial_outcome :: "nat \<Rightarrow> resolver \<Rightarrow> world list \<Rightarrow> outcome" where
  "initial_outcome k r ws =
     (let fs = takeWhile (fails r) ws; hs = hard_errors r fs
      in if k < length hs then Returned (Some (hs ! k))
         else if length fs < length ws then Returned None else Waiting)"

definition loop_count :: "int \<Rightarrow> resolve_error \<Rightarrow> int" where
  "loop_count n e = (if NotReady e then n else n + 1)"

definition loop_wait :: "int \<Rightarrow> resolve_error \<Rightarrow> int" where
  "loop_wait n e = (if NotReady e then sentinelNotReadyBackoff else ResolveFailureBackoff (n + 1))"

text \<open>One round of the initial resolve.\<close>

lemma initial_loop_cases:
  obtains (ok) r1 where "updateMasterAddress w r = (None, r1)"
      "initialMasterAddressResolve_loop n r w evs = \<lparr>lrOutcome = Returned None, lrResolver = r1, lrWaits = []\<rparr>"
  | (giveup) x r1 where "updateMasterAddress w r = (Some x, r1)" "\<not> NotReady x"
      "retryOnMasterResolveFail r \<le> n"
      "initialMasterAddressResolve_loop n r w evs = \<lparr>lrOutcome = Returned (Some x), lrResolver = r1, lrWaits = []\<rparr>"
  | (waits) x r1 where "updateMasterAddress w r = (Some x, r1)" "NotReady x \<or> n < retryOnMasterResolveFail r"
      "evs = [] \<or> hd evs = CtxDone"
      "initialMasterAddressResolve_loop n r w evs = \<lparr>lrOutcome = (if evs = [] then Waiting else Returned (Some x)),
         lrResolver = r1, lrWaits = [loop_wait n x]\<rparr>"
  | (again) x r1 w' evs' where "updateMasterAddress w r = (Some x, r1)"
      "NotReady x \<or> n < retryOnMasterResolveFail r" "evs = Fired w' # evs'"
      "initialMasterAddressResolve_loop n r w evs =
         (let res = initialMasterAddressResolve_loop (loop_count n x) r1 w' evs'
          in res\<lparr>lrWaits := loop_wait n x # lrWaits res\<rparr>)"
proof (cases "updateMasterAddress w r")
  case (Pair e r1)
  have re: "retryOnMasterResolveFail r1 = retryOnMasterResolveFail r"
    using fixed_fields(6) [OF updateMasterAddress_serves(1) [OF Pair]] .
  note unf = initialMasterAddressResolve_loop.simps [of n] loop_wait_def loop_count_def Let_def
  show thesis
  proof (cases e)
    case None
    with Pair show thesis by (intro ok) (simp_all add: unf)
  next
    case (Some x)
    show thesis
    proof (cases "NotReady x \<or> n < retryOnMasterResolveFail r")
      case False
      with Pair Some re show thesis by (intro giveup) (auto simp: unf)
    next
      case True
      show thesis
      proof (cases "evs = [] \<or> hd evs = CtxDone")
        case t: True
        with Pair Some True re show thesis
          by (intro waits) (auto simp: unf split: list.splits wake.splits)
      next
        case False
        then obtain w' evs' where "evs = Fired w' # evs'"
          by (cases evs; cases "hd evs") auto
        with Pair Some True re show thesis by (intro again) (auto simp: unf)
      qed
    qed
  qed
qed

lemma initial_loop_outcome:
  assumes "CtxDone \<notin> set evs" "0 \<le> n" "n \<le> max 0 (retryOnMasterResolveFail r)"
  shows "lrOutcome (initialMasterAddressResolve_loop n r w evs) =
     initial_outcome (nat (retryOnMasterResolveFail r) - nat n) r (w # fired evs)"
  using assms
proof (induction evs arbitrary: n r w rule: length_induct)
  case (1 evs)
  show ?case
  proof (cases rule: initial_loop_cases [of w r n evs])
    case (ok r1)
    with updateMasterAddress_serves(3) [OF ok(1)] show ?thesis
      by (simp add: initial_outcome_def fails_def split: sum.splits)
  next
    case (giveup x r1)
    with updateMasterAddress_serves(3) [OF giveup(1)] "1.prems" show ?thesis
      by (simp add: initial_outcome_def fails_def Let_def split: sum.splits)
  next
    case (waits x r1)
    with "1.prems"(1) have "evs = []" by (cases evs) auto
    with waits updateMasterAddress_serves(3) [OF waits(1)] "1.prems" show ?thesis
      by (auto simp: initial_outcome_def fails_def Let_def max_def split: sum.splits if_splits)
  next
    case (again x r1 w' evs')
    note s = updateMasterAddress_serves [OF again(1)]
    note fx = fixed_fields(6) [OF s(1)] fails_fixed [OF s(1)] hard_errors_fixed [OF s(1)]
    define n' where "n' = loop_count n x"
    have n': "0 \<le> n'" "n' \<le> max 0 (retryOnMasterResolveFail r1)"
      "nat (retryOnMasterResolveFail r) - nat n =
         (if NotReady x then 0 else 1) + (nat (retryOnMasterResolveFail r1) - nat n')"
      using again(2) "1.prems"(2,3) fx(1) by (auto simp: n'_def loop_count_def max_def split: if_splits)
    have "length evs' < length evs" "CtxDone \<notin> set evs'" using again(3) "1.prems"(1) by auto
    with n'(1,2) "1.IH" have "lrOutcome (initialMasterAddressResolve_loop n' r1 w' evs') =
        initial_outcome (nat (retryOnMasterResolveFail r1) - nat n') r1 (w' # fired evs')" by blast
    moreover have "lrOutcome (initialMasterAddressResolve_loop n r w evs) =
        lrOutcome (initialMasterAddressResolve_loop n' r1 w' evs')"
      using again(4) by (simp add: n'_def Let_def)
    moreover have "master_verdict w r = Inl x" using s(3) by (simp split: sum.splits)
    ultimately show ?thesis
      using again(3) n'(3) fx by (simp add: initial_outcome_def fails_def Let_def)
  qed
qed

text \<open>A run of a loop is a sequence of attempts.\<close>

lemma reaches_attempt: "updateMasterAddress w r = (e, r') \<Longrightarrow> reaches r [Attempt w] r'"
  using reaches.step [OF reaches.start, of r "Attempt w"] by simp

lemma initial_loop_reaches:
  "\<exists>ws. set ws \<subseteq> set (w # fired evs) \<and>
     reaches r (map Attempt ws) (lrResolver (initialMasterAddressResolve_loop n r w evs))"
proof (induction evs arbitrary: n r w rule: length_induct)
  case (1 evs)
  show ?case
  proof (cases rule: initial_loop_cases [of w r n evs])
    case (again x r1 w' evs')
    then obtain ws where ws: "set ws \<subseteq> set (w' # fired evs')"
      "reaches r1 (map Attempt ws) (lrResolver (initialMasterAddressResolve_loop (loop_count n x) r1 w' evs'))"
      using "1.IH" by (metis length_Cons lessI)
    have "reaches r (map Attempt (w # ws)) (lrResolver (initialMasterAddressResolve_loop n r w evs))"
      using reaches_trans [OF ws(2) reaches_attempt [OF again(1)]] again(4) by (simp add: Let_def)
    moreover have "set (w # ws) \<subseteq> set (w # fired evs)" using ws(1) again(3) by auto
    ultimately show ?thesis by blast
  qed (auto intro!: exI [of _ "[w]"] simp: reaches_attempt)
qed

lemma initial_reaches:
  "\<exists>as. action_worlds as \<subseteq> set (w # fired evs) \<and> reaches r as (lrResolver (initialMasterAddressResolve r w evs))"
proof -
  obtain ws where ws: "set ws \<subseteq> set (w # fired evs)"
    "reaches r (map Attempt ws) (lrResolver (initialMasterAddressResolve_loop 0 r w evs))"
    using initial_loop_reaches by blast
  have w: "action_worlds (map Attempt ws) = set ws" by (induction ws) auto
  show ?thesis
  proof (cases "lrOutcome (initialMasterAddressResolve_loop 0 r w evs)")
    case Waiting
    with ws w show ?thesis by (auto simp: initialMasterAddressResolve_def Let_def)
  next
    case (Returned x)
    from reaches.step [OF ws(2), of CloseInitial] Returned ws(1) w show ?thesis
      by (intro exI [of _ "map Attempt ws @ [CloseInitial]"])
        (simp add: initialMasterAddressResolve_def Let_def action_worlds_append)
  qed
qed

text \<open>The update loop after one event.\<close>

lemma update_loop_over: "retryOnMasterResolveFail r < n \<Longrightarrow>
    update_loop n err r evs = \<lparr>lrOutcome = Returned err, lrResolver = r, lrWaits = []\<rparr>"
  by (simp add: update_loop.simps [of n])

lemma update_loop_cases:
  assumes "n \<le> retryOnMasterResolveFail r"
  obtains (quiet) "evs = []" "update_loop n err r evs = \<lparr>lrOutcome = Waiting, lrResolver = r, lrWaits = []\<rparr>"
  | (cancelled) evs1 where "evs = CtxDone # evs1"
      "update_loop n err r evs = \<lparr>lrOutcome = Returned None, lrResolver = r, lrWaits = []\<rparr>"
  | (ok) w evs1 r1 where "evs = Fired w # evs1" "updateMasterAddress w r = (None, r1)"
      "update_loop n err r evs = update_loop 0 None r1 evs1"
  | (sleeps) w evs1 x r1 where "evs = Fired w # evs1" "updateMasterAddress w r = (Some x, r1)"
      "evs1 = [] \<or> hd evs1 = CtxDone"
      "update_loop n err r evs = \<lparr>lrOutcome = (if evs1 = [] then Waiting else Returned None),
         lrResolver = r1, lrWaits = [loop_wait n x]\<rparr>"
  | (again) w w' evs2 x r1 where "evs = Fired w # Fired w' # evs2" "updateMasterAddress w r = (Some x, r1)"
      "update_loop n err r evs =
         (let res = update_loop (loop_count n x) (Some x) r1 evs2
          in res\<lparr>lrWaits := loop_wait n x # lrWaits res\<rparr>)"
proof -
  note unf = update_loop.simps [of n err] loop_wait_def loop_count_def Let_def
  consider "evs = []" | evs1 where "evs = CtxDone # evs1" | w evs1 where "evs = Fired w # evs1"
    by (cases evs; cases "hd evs") auto
  then show thesis
  proof cases
    case 1
    with assms show thesis by (intro quiet) (simp_all add: unf)
  next
    case 2
    with assms show thesis by (intro cancelled) (simp_all add: unf)
  next
    case (3 w evs1)
    obtain e r1 where u: "updateMasterAddress w r = (e, r1)" by (cases "updateMasterAddress w r")
    show thesis
    proof (cases e)
      case None
      with 3 u assms show thesis by (intro ok) (simp_all add: unf)
    next
      case (Some x)
      show thesis
      proof (cases "evs1 = [] \<or> hd evs1 = CtxDone")
        case True
        with 3 u Some assms show thesis
          by (intro sleeps) (auto simp: unf split: list.splits wake.splits)
      next
        case False
        then obtain w' evs2 where "evs1 = Fired w' # evs2" by (cases evs1; cases "hd evs1") auto
        with 3 u Some assms show thesis by (intro again) (auto simp: unf)
      qed
    qed
  qed
qed

text \<open>The worlds in which an update loop that has seen \<open>evs\<close> made an attempt.\<close>

fun attempts :: "resolver \<Rightarrow> wake list \<Rightarrow> world list" where
  "attempts r [] = []"
| "attempts r (CtxDone # evs) = []"
| "attempts r [Fired w] = [w]"
| "attempts r (Fired w # ev # evs) =
     w # (if fails r w then attempts r evs else attempts r (ev # evs))"

lemma attempts_fixed: "fixed_part r = fixed_part r' \<Longrightarrow> attempts r evs = attempts r' evs"
  using fails_fixed [of r r'] by (induction r evs rule: attempts.induct) simp_all

text \<open>What a budget of \<open>k\<close> hard failures, \<open>n\<close> of them spent, lets the loop return.\<close>

definition exhausted :: "resolver \<Rightarrow> int \<Rightarrow> int \<Rightarrow> resolve_error \<Rightarrow> world list \<Rightarrow> bool" where
  "exhausted r k n e ws \<longleftrightarrow>
     (\<exists>pre run rest. ws = pre @ run @ rest \<and> (\<forall>w\<in>set run. fails r w) \<and>
        int (length (hard_errors r run)) = k - (if pre = [] then n else 0) \<and> last (hard_errors r run) = e)"

lemma hard_errors_Cons_ok: "\<not> fails r w \<Longrightarrow> hard_errors r (w # ws) = hard_errors r ws"
  by (cases "master_verdict w r") (simp_all add: fails_def)

lemma exhausted_ok:
  assumes "exhausted r k 0 e ws"
  shows "exhausted r k n e (w # ws)"
proof -
  from assms obtain pre run rest where "ws = pre @ run @ rest" "\<forall>w\<in>set run. fails r w"
    "int (length (hard_errors r run)) = k" "last (hard_errors r run) = e"
    by (auto simp: exhausted_def split: if_splits)
  then show ?thesis
    unfolding exhausted_def by (intro exI [of _ "w # pre"] exI [of _ run] exI [of _ rest]) simp
qed

lemma exhausted_failed:
  assumes "exhausted r k (loop_count n x) e ws" "master_verdict w r = Inl x" "loop_count n x < k"
  shows "exhausted r k n e (w # ws)"
proof -
  from assms(1) obtain pre run rest where p: "ws = pre @ run @ rest" "\<forall>w\<in>set run. fails r w"
    "int (length (hard_errors r run)) = k - (if pre = [] then loop_count n x else 0)"
    "last (hard_errors r run) = e"
    by (auto simp: exhausted_def)
  show ?thesis
  proof (cases "pre = []")
    case True
    with p assms(3) have "hard_errors r run \<noteq> []" by auto
    with True p assms(2) show ?thesis
      unfolding exhausted_def
      by (intro exI [of _ "[]"] exI [of _ "w # run"] exI [of _ rest]) (auto simp: fails_def loop_count_def)
  next
    case False
    with p show ?thesis
      unfolding exhausted_def by (intro exI [of _ "w # pre"] exI [of _ run] exI [of _ rest]) simp
  qed
qed

lemma exhausted_last:
  assumes "master_verdict w r = Inl x" "\<not> NotReady x"
  shows "exhausted r (n + 1) n x (w # ws)"
  unfolding exhausted_def using assms
  by (intro exI [of _ "[]"] exI [of _ "[w]"] exI [of _ ws]) (simp add: fails_def)

lemma exhausted_fixed: "fixed_part r = fixed_part r' \<Longrightarrow> exhausted r = exhausted r'"
  by (rule ext)+ (simp add: exhausted_def fails_fixed [of r r'] hard_errors_fixed [of r r'])

lemma attempts_ok: "\<not> fails r w \<Longrightarrow> attempts r (Fired w # evs) = w # attempts r evs"
  by (cases evs) simp_all

lemma update_loop_exhausted:
  assumes "lrOutcome (update_loop n err r evs) = Returned x" "n \<le> retryOnMasterResolveFail r"
    "0 \<le> retryOnMasterResolveFail r"
  shows "case x of None \<Rightarrow> CtxDone \<in> set evs
    | Some e \<Rightarrow> exhausted r (retryOnMasterResolveFail r + 1) n e (attempts r evs)"
  using assms
proof (induction evs arbitrary: n err r rule: length_induct)
  case (1 evs)
  show ?case
    using "1.prems"(2)
  proof (cases rule: update_loop_cases [where evs = evs and err = err])
    case (ok w evs1 r1)
    note s = updateMasterAddress_serves [OF ok(2)]
    note fx = fixed_fields(6) [OF s(1)] attempts_fixed [OF s(1)] exhausted_fixed [OF s(1)]
    have "\<not> fails r w" using s(3) by (simp add: fails_def split: sum.splits)
    moreover have "case x of None \<Rightarrow> CtxDone \<in> set evs1
        | Some e \<Rightarrow> exhausted r1 (retryOnMasterResolveFail r1 + 1) 0 e (attempts r1 evs1)"
      using "1.prems" fx(1) ok(1,3) by (intro "1.IH" [rule_format, of evs1 0 None r1]) simp_all
    ultimately show ?thesis
      using ok(1) fx by (auto simp: attempts_ok split: option.splits intro: exhausted_ok)
  next
    case (again w w' evs2 y r1)
    note s = updateMasterAddress_serves [OF again(2)]
    note fx = fixed_fields(6) [OF s(1)] attempts_fixed [OF s(1)] exhausted_fixed [OF s(1)]
    have v: "master_verdict w r = Inl y" using s(3) by (simp split: sum.splits)
    then have at: "attempts r evs = w # attempts r evs2" using again(1) by (simp add: fails_def)
    have l: "lrOutcome (update_loop (loop_count n y) (Some y) r1 evs2) = Returned x"
      using "1.prems"(1) again(3) by (simp add: Let_def)
    show ?thesis
    proof (cases "loop_count n y \<le> retryOnMasterResolveFail r")
      case True
      then have "case x of None \<Rightarrow> CtxDone \<in> set evs2
        | Some e \<Rightarrow> exhausted r1 (retryOnMasterResolveFail r1 + 1) (loop_count n y) e (attempts r1 evs2)"
        using "1.prems" fx(1) again(1) l
        by (intro "1.IH" [rule_format, of evs2 "loop_count n y" "Some y" r1]) simp_all
      with at again(1) True v fx show ?thesis
        by (auto split: option.splits intro: exhausted_failed)
    next
      case False
      then have "x = Some y" "\<not> NotReady y" "retryOnMasterResolveFail r = n"
        using l fx(1) "1.prems"(2) by (auto simp: update_loop_over loop_count_def split: if_splits)
      with at exhausted_last [OF v] show ?thesis by simp
    qed
  next
    case (sleeps w evs1 y r1)
    with "1.prems"(1) have "x = None" "CtxDone \<in> set evs1" by (cases evs1; auto)+
    with sleeps(1) show ?thesis by simp
  qed (use "1.prems" in auto)
qed

text \<open>Failures one after the other, each followed by its wait, until the budget is spent.\<close>

lemma update_loop_spent:
  assumes "\<forall>w\<in>set ws. fails r w" "n \<le> retryOnMasterResolveFail r"
    "retryOnMasterResolveFail r - n < int (length (hard_errors r ws))"
  shows "\<exists>e. lrOutcome (update_loop n err r (concat (map (\<lambda>w. [Fired w, Fired w]) ws))) = Returned (Some e)"
  using assms
proof (induction ws arbitrary: n err r)
  case (Cons w ws)
  then obtain y where v: "master_verdict w r = Inl y" by (auto simp: fails_def)
  obtain e r1 where u: "updateMasterAddress w r = (e, r1)" by (cases "updateMasterAddress w r")
  note s = updateMasterAddress_serves [OF u]
  note fx = fixed_fields(6) [OF s(1)] fails_fixed [OF s(1)] hard_errors_fixed [OF s(1)]
  have e: "e = Some y" using s(3) v by simp
  define evs where "evs = concat (map (\<lambda>w. [Fired w, Fired w]) ws)"
  have eq: "lrOutcome (update_loop n err r (Fired w # Fired w # evs)) =
      lrOutcome (update_loop (loop_count n y) (Some y) r1 evs)"
    by (cases rule: update_loop_cases [OF Cons.prems(2), of "Fired w # Fired w # evs" err])
      (use u e in \<open>auto simp: Let_def\<close>)
  show ?case
  proof (cases "loop_count n y \<le> retryOnMasterResolveFail r")
    case True
    moreover have "retryOnMasterResolveFail r1 - loop_count n y < int (length (hard_errors r1 ws))"
      using Cons.prems(3) v fx(1,3) by (auto simp: loop_count_def split: if_splits)
    ultimately show ?thesis
      using Cons.IH [of r1 "loop_count n y" "Some y"] Cons.prems(1) fx eq by (simp add: evs_def)
  next
    case False
    then show ?thesis using eq fx(1) by (simp add: evs_def update_loop_over)
  qed
qed simp

subsection \<open>Round robin\<close>

text \<open>The results of \<open>n\<close> calls of \<open>ReplicaAddress\<close> in a row.\<close>

fun picks :: "nat \<Rightarrow> resolver \<Rightarrow> (string \<times> bool) option list" where
  "picks 0 r = []"
| "picks (Suc n) r = (case ReplicaAddress r of (x, r') \<Rightarrow> x # picks n r')"

lemma ReplicaAddress_pick:
  assumes "initialDone r" "replicaAddrs r \<noteq> []" "length (replicaAddrs r) < 2 ^ 64"
  shows "ReplicaAddress r =
    (Some (replicaAddrs r ! (unat (replicaIdx r) mod length (replicaAddrs r)), True), r\<lparr>replicaIdx := replicaIdx r + 1\<rparr>)"
proof -
  have "unat (of_nat (length (replicaAddrs r)) :: 64 word) = length (replicaAddrs r)"
    using assms(3) by (simp add: unat_of_nat)
  with assms show ?thesis by (simp add: ReplicaAddress_def Let_def unat_mod)
qed

lemma picks_nth:
  assumes "initialDone r" "replicaAddrs r \<noteq> []" "length (replicaAddrs r) < 2 ^ 64"
    "unat (replicaIdx r) + n \<le> 2 ^ 64"
  shows "picks n r = map (\<lambda>k. Some (replicaAddrs r ! (k mod length (replicaAddrs r)), True))
    [unat (replicaIdx r)..<unat (replicaIdx r) + n]"
  using assms
proof (induction n arbitrary: r)
  case (Suc n)
  let ?i = "unat (replicaIdx r)"
  have hd: "[?i..<?i + Suc n] = ?i # [?i + 1..<?i + 1 + n]" by (simp add: upt_conv_Cons del: upt_Suc)
  have "n = 0 \<or> unat (replicaIdx r + 1) = ?i + 1"
    using Suc.prems(4) by (cases n) (simp_all add: unat_word_ariths)
  then show ?case
    unfolding hd using Suc.IH [of "r\<lparr>replicaIdx := replicaIdx r + 1\<rparr>"] Suc.prems
    by (auto simp: ReplicaAddress_pick simp del: upt_Suc)
qed simp

lemma mset_cycle:
  assumes "xs \<noteq> []"
  shows "mset (map (\<lambda>k. xs ! (k mod length xs)) [i..<i + length xs]) = mset xs"
proof (induction i)
  case 0
  have "map (\<lambda>k. xs ! (k mod length xs)) [0..<length xs] = map (\<lambda>k. xs ! k) [0..<length xs]" by simp
  then show ?case by (simp add: map_nth)
next
  case (Suc i)
  let ?f = "\<lambda>k. xs ! (k mod length xs)"
  have "mset (map ?f [i..<Suc (i + length xs)]) = mset (map ?f [i..<i + length xs]) + {#?f (i + length xs)#}"
    by simp
  moreover have "mset (map ?f [i..<Suc (i + length xs)]) = {#?f i#} + mset (map ?f [Suc i..<Suc i + length xs])"
    using assms by (simp add: upt_conv_Cons del: upt_Suc)
  ultimately show ?case using Suc.IH by simp
qed

lemma TCPAddr_String_nonempty [simp]: "TCPAddr_String a \<noteq> []"
  by (simp add: TCPAddr_String_def JoinHostPort_def)

lemma master_verdict_nonempty: "master_verdict w r = Inr addr \<Longrightarrow> addr \<noteq> []"
  using master_verdict_verified [of w r addr] by (auto simp: verified_master_def usable_def)

lemma initial_loop_nonempty:
  "lrOutcome (initialMasterAddressResolve_loop n r w evs) = Returned None \<Longrightarrow>
     masterAddr (lrResolver (initialMasterAddressResolve_loop n r w evs)) \<noteq> []"
proof (induction evs arbitrary: n r w rule: length_induct)
  case (1 evs)
  show ?case
  proof (cases rule: initial_loop_cases [of w r n evs])
    case (ok r1)
    with updateMasterAddress_serves(2,3) [OF ok(1)] show ?thesis
      by (auto simp: serve_def served_def dest: master_verdict_nonempty split: sum.splits)
  next
    case (again x r1 w' evs')
    with 1 show ?thesis by (simp add: Let_def)
  qed (use "1.prems" in \<open>auto split: if_splits\<close>)
qed

text \<open>A throttled refresh changes nothing, so within the throttle the time of the last refresh stays.\<close>

lemma RefreshAddresses_frozen:
  "lastRefresh r = Some t \<Longrightarrow> wNow w - t < refreshThrottle \<Longrightarrow> RefreshAddresses w r = r"
  by (simp add: RefreshAddresses_def)

lemma lastRefresh_reaches:
  "reaches r as r' \<Longrightarrow> lastRefresh r = Some t \<Longrightarrow> \<forall>w. Refresh w \<in> set as \<longrightarrow> wNow w - t < refreshThrottle \<Longrightarrow>
     lastRefresh r' = Some t"
proof (induction rule: reaches.induct)
  case (step as r1 a)
  then have t: "lastRefresh r1 = Some t" by simp
  have "lastRefresh (act a r1) = lastRefresh r1"
  proof (cases a)
    case (Attempt w)
    then show ?thesis
      using fixed_fields(9) [OF updateMasterAddress_serves(1) [of w r1 "fst (updateMasterAddress w r1)"
            "snd (updateMasterAddress w r1)"]] by simp
  next
    case (Refresh w)
    with step.prems have "RefreshAddresses w r1 = r1" by (intro RefreshAddresses_frozen [OF t]) simp
    with Refresh show ?thesis by simp
  next
    case PickReplica
    then show ?thesis using ReplicaAddress_frame [of r1 "fst (ReplicaAddress r1)" "snd (ReplicaAddress r1)"] by auto
  qed (auto simp: closeSentinel_def)
  with t show ?case by simp
qed simp

text \<open>A refresh that is not throttled is an attempt, and takes the time of it.\<close>

lemma checkRole_lastRefresh [simp]: "checkRole w (r\<lparr>lastRefresh := t\<rparr>) = checkRole w r"
  by (rule ext)+ (simp add: checkRole_def)

lemma replica_address_lastRefresh [simp]: "replica_address w (r\<lparr>lastRefresh := t\<rparr>) = replica_address w r"
  by (rule ext) (simp add: replica_address_def cong: sum.case_cong)

lemma usable_replicas_lastRefresh [simp]: "usable_replicas w (r\<lparr>lastRefresh := t\<rparr>) = usable_replicas w r"
  by (simp add: usable_replicas_def cong: sum.case_cong)

lemma master_verdict_lastRefresh [simp]: "master_verdict w (r\<lparr>lastRefresh := t\<rparr>) = master_verdict w r"
  by (simp add: master_verdict_def resolveMasterAddress_def
      split: sum.splits redis_error.splits list.splits option.splits prod.splits)

lemma serve_lastRefresh [simp]: "serve (r\<lparr>lastRefresh := t\<rparr>) = serve r"
  by (rule ext)+ (simp add: serve_def cong: sum.case_cong)

lemma RefreshAddresses_attempt:
  assumes "initialDone r" "\<forall>t. lastRefresh r = Some t \<longrightarrow> refreshThrottle \<le> wNow w - t"
  shows "lastRefresh (RefreshAddresses w r) = Some (wNow w)"
    "served (RefreshAddresses w r) = serve r w (served r)"
proof -
  define r1 where "r1 = r\<lparr>lastRefresh := Some (wNow w)\<rparr>"
  obtain e r' where u: "updateMasterAddress w r1 = (e, r')" by (cases "updateMasterAddress w r1")
  have "RefreshAddresses w r = r'"
    using assms u by (auto simp: RefreshAddresses_def r1_def split: option.splits)
  then show "lastRefresh (RefreshAddresses w r) = Some (wNow w)"
    "served (RefreshAddresses w r) = serve r w (served r)"
    using fixed_fields(9) [OF updateMasterAddress_serves(1) [OF u]] updateMasterAddress_serves(2) [OF u]
    by (simp_all add: r1_def)
qed

end
