(* ===== verification/Proxy.thy ===== *)
theory Proxy
  imports Session Resolver
begin

text \<open>
  \<open>pkg/proxy/proxy.go\<close>, the constructor and the entry of \<open>routing.go\<close>, and \<open>pkg/utils\<close>:
  how an accepted client gets its backend, the session that pipes bytes, the idle clock, the
  listen loops with their connection limit, and \<open>Run\<close>. The resolver is used through the
  three interfaces the source declares; a value of record \<open>resolverI\<close> is the method table of
  the resolver that was passed in, with \<open>None\<close> for an interface it does not implement.
\<close>

section \<open>Definitions\<close>

subsection \<open>The interfaces and the proxy\<close>

text \<open>\<open>MasterAddress\<close> and \<open>ReplicaAddress\<close> may block: \<open>None\<close>.\<close>

record 's resolverI =
  iMasterAddress :: "'s \<Rightarrow> string option"
  iReplicaAddress :: "('s \<Rightarrow> (string \<times> bool) option \<times> 's) option"
  iRefreshAddresses :: "(world \<Rightarrow> 's \<Rightarrow> 's) option"

datatype proxy_error =
    NilPointer
  | ResolvingListen
  | ResolvingReplicaListen
  | NoReplicaTracking
  | NoEndpoint
  | RouterNeedsListen
  | NoHealthyReplica
  | Connecting string string io_error

record 's proxy =
  localAddr :: "tcpAddr option"
  tlsConf :: "tlsConfig option"
  dialTLSConf :: "tlsConfig option"       \<comment> \<open>\<open>masterTLSConf\<close>\<close>
  idleTimeout :: int
  sem :: "nat option"                     \<comment> \<open>capacity of the channel; \<open>None\<close>: nil, no limit\<close>
  debug :: bool
  masterResolver :: "'s \<Rightarrow> string option"
  refresher :: "(world \<Rightarrow> 's \<Rightarrow> 's) option"
  replicaAddr :: "tcpAddr option"
  replicaResolver :: "('s \<Rightarrow> (string \<times> bool) option \<times> 's) option"
  replicaFallbackMaster :: bool
  router :: bool

definition derefP :: "'a option \<Rightarrow> proxy_error + 'a" where
  "derefP p = (case p of None \<Rightarrow> Inl NilPointer | Some v \<Rightarrow> Inr v)"

text \<open>
  \<open>NewRedisSentinelProxy\<close>, step by step: the fields, the two endpoints, router mode. The
  function \<open>resolve\<close> is \<open>net.ResolveTCPAddr\<close>.
\<close>

definition proxyFields :: "config \<Rightarrow> 's resolverI \<Rightarrow> proxy_error + 's proxy" where
  "proxyFields cfg m =
     bindR (derefP (MaxConnections cfg)) (\<lambda>maxConns.
     bindR (derefP (IdleTimeout cfg)) (\<lambda>idle.
     bindR (derefP (Debug cfg)) (\<lambda>dbg.
     Inr \<lparr>localAddr = None, tlsConf = ListenTLSConfig cfg, dialTLSConf = MasterTLSConfig cfg,
          idleTimeout = idle, sem = (if 0 < maxConns then Some (nat maxConns) else None),
          debug = dbg, masterResolver = iMasterAddress m, refresher = iRefreshAddresses m,
          replicaAddr = None, replicaResolver = None, replicaFallbackMaster = False,
          router = False\<rparr>)))"

definition masterEndpoint :: "(string \<Rightarrow> tcpAddr option) \<Rightarrow> config \<Rightarrow> 's proxy \<Rightarrow> proxy_error + 's proxy" where
  "masterEndpoint resolve cfg p =
     (if strSet (Listen cfg) then
        (case resolve (the (Listen cfg)) of
           None \<Rightarrow> Inl ResolvingListen
         | Some a \<Rightarrow> Inr (p\<lparr>localAddr := Some a\<rparr>))
      else Inr p)"

definition replicaEndpoint ::
  "(string \<Rightarrow> tcpAddr option) \<Rightarrow> config \<Rightarrow> 's resolverI \<Rightarrow> 's proxy \<Rightarrow> proxy_error + 's proxy" where
  "replicaEndpoint resolve cfg m p =
     (if strSet (ReplicaListen cfg) then
        (case resolve (the (ReplicaListen cfg)) of
           None \<Rightarrow> Inl ResolvingReplicaListen
         | Some a \<Rightarrow>
             (case iReplicaAddress m of
                None \<Rightarrow> Inl NoReplicaTracking
              | Some rr \<Rightarrow>
                  bindR (derefP (ReplicaFallback cfg)) (\<lambda>fb.
                  Inr (p\<lparr>replicaAddr := Some a, replicaResolver := Some rr,
                         replicaFallbackMaster := (fb = ReplicaFallbackMaster)\<rparr>))))
      else Inr p)"

definition routerMode :: "config \<Rightarrow> 's resolverI \<Rightarrow> 's proxy \<Rightarrow> proxy_error + 's proxy" where
  "routerMode cfg m p =
     (if RouterMode cfg = Some True then
        if localAddr p = None then Inl RouterNeedsListen
        else (case iReplicaAddress m of
                None \<Rightarrow> Inl NoReplicaTracking
              | Some rr \<Rightarrow> Inr (p\<lparr>replicaResolver := Some rr, router := True\<rparr>))
      else Inr p)"

definition NewRedisSentinelProxy ::
  "(string \<Rightarrow> tcpAddr option) \<Rightarrow> config \<Rightarrow> 's resolverI \<Rightarrow> proxy_error + 's proxy" where
  "NewRedisSentinelProxy resolve cfg m =
     bindR (proxyFields cfg m) (\<lambda>p0.
     bindR (masterEndpoint resolve cfg p0) (\<lambda>p1.
     bindR (replicaEndpoint resolve cfg m p1) (\<lambda>p2.
     if localAddr p2 = None \<and> replicaAddr p2 = None then Inl NoEndpoint
     else routerMode cfg m p2)))"

subsection \<open>Reading from a connection\<close>

text \<open>
  One read of a connection and, when it is the connection inside an \<open>idleConn\<close>, the round of
  \<open>idleConn.Read\<close> it belongs to: the outcome of \<open>SetReadDeadline\<close>, what the read of the
  connection returned, the time after it, and what the shared activity clock holds by then
  when this round does not store into it (the other direction may have).
\<close>

record read_round =
  rrDeadline :: "io_error option"
  rrBytes :: bytes
  rrErr :: "io_error option"
  rrNow :: int
  rrActivity :: int

text \<open>
  The loop of \<open>idleConn.Read\<close> over the rounds that happen; \<open>None\<close>: it is still waiting.
  The result is the bytes and the error it returns, and the activity clock.
\<close>

fun idleConn_Read :: "int \<Rightarrow> read_round list \<Rightarrow> (bytes \<times> io_error option \<times> int) option" where
  "idleConn_Read timeout [] = None"
| "idleConn_Read timeout (rd # rds) =
     (case rrDeadline rd of
        Some e \<Rightarrow> Some ([], Some e, rrActivity rd)
      | None \<Rightarrow>
          (let activity = (if rrBytes rd \<noteq> [] then rrNow rd else rrActivity rd)
           in if rrErr rd = Some DeadlineExceeded \<and> rrNow rd - activity < timeout
              then idleConn_Read timeout rds
              else Some (rrBytes rd, rrErr rd, activity)))"

text \<open>\<open>countingReader.Read\<close>: the bytes pass through, the \<open>int64\<close> counter grows.\<close>

definition countingReader_Read :: "bytes \<times> io_error option \<Rightarrow> int \<Rightarrow> (bytes \<times> io_error option) \<times> int" where
  "countingReader_Read res n = (res, int64 (n + int (length (fst res))))"

text \<open>The rounds that a call of \<open>idleConn.Read\<close> leaves for the next one.\<close>

fun idleConn_rest :: "int \<Rightarrow> read_round list \<Rightarrow> read_round list" where
  "idleConn_rest timeout [] = []"
| "idleConn_rest timeout (rd # rds) =
     (let activity = (if rrBytes rd \<noteq> [] then rrNow rd else rrActivity rd)
      in if rrDeadline rd = None \<and> rrErr rd = Some DeadlineExceeded \<and> rrNow rd - activity < timeout
         then idleConn_rest timeout rds else rds)"

lemma idleConn_rest_length: "length (idleConn_rest timeout rds) \<le> length rds - 1"
  by (induction timeout rds rule: idleConn_rest.induct) (auto simp: Let_def)

text \<open>
  What successive calls of \<open>Read\<close> return: of the connection itself, of an \<open>idleConn\<close> around it,
  and of a \<open>countingReader\<close> around either (with the counter). A session's readers are wrapped
  as \<open>proxy\<close> and \<open>routedProxy\<close> do it; the byte counter belongs to the former and to debug mode.
\<close>

type_synonym read_result = "bytes \<times> io_error option"

definition connReads :: "read_round list \<Rightarrow> read_result list" where
  "connReads rds = map (\<lambda>rd. (rrBytes rd, rrErr rd)) rds"

function idleReads :: "int \<Rightarrow> read_round list \<Rightarrow> read_result list" where
  "idleReads timeout rds =
     (case idleConn_Read timeout rds of
        None \<Rightarrow> []
      | Some (b, e, _) \<Rightarrow> (b, e) # idleReads timeout (idleConn_rest timeout rds))"
  by pat_completeness auto
termination
proof (relation "measure (length \<circ> snd)")
  fix timeout rds x b y e clk
  assume "idleConn_Read timeout rds = Some x"
  then have "rds \<noteq> []" by auto
  then show "((timeout, idleConn_rest timeout rds), timeout, rds) \<in> measure (length \<circ> snd)"
    using idleConn_rest_length [of timeout rds] by (cases rds) auto
qed simp

declare idleReads.simps [simp del]

fun countedReads :: "int \<Rightarrow> read_result list \<Rightarrow> read_result list \<times> int" where
  "countedReads n [] = ([], n)"
| "countedReads n (res # rs) =
     (case countingReader_Read res n of (res', n') \<Rightarrow>
        (case countedReads n' rs of (rs', n'') \<Rightarrow> (res' # rs', n'')))"

text \<open>
  The stream that a reader sees: the bytes up to the first error; a connection whose rounds
  are used up is at its end.
\<close>

fun streamOf :: "read_result list \<Rightarrow> reader" where
  "streamOf [] = \<lparr>avail = [], rerr = EOF\<rparr>"
| "streamOf ((b, e) # rs) =
     (case e of
        Some err \<Rightarrow> \<lparr>avail = b, rerr = err\<rparr>
      | None \<Rightarrow> (let r = streamOf rs in r\<lparr>avail := b @ avail r\<rparr>))"

definition sessionReads :: "'s proxy \<Rightarrow> read_round list \<Rightarrow> read_result list" where
  "sessionReads p rds = (if 0 < idleTimeout p then idleReads (idleTimeout p) rds else connReads rds)"

definition pipeReader :: "'s proxy \<Rightarrow> read_round list \<Rightarrow> reader" where
  "pipeReader p rds =
     streamOf (if debug p then fst (countedReads 0 (sessionReads p rds)) else sessionReads p rds)"

definition routedReader :: "'s proxy \<Rightarrow> read_round list \<Rightarrow> reader" where
  "routedReader p rds = streamOf (sessionReads p rds)"

subsection \<open>Choosing and dialling a backend\<close>

text \<open>
  A pick returns the address and a label, or an error; \<open>None\<close> is a pick that blocks. It
  may change the state of the resolver.
\<close>

type_synonym 's pickBackend = "'s \<Rightarrow> (proxy_error + (string \<times> string)) option \<times> 's"

definition pickMaster :: "'s proxy \<Rightarrow> 's pickBackend" where
  "pickMaster p s = (map_option (\<lambda>a. Inr (a, ''master'')) (masterResolver p s), s)"

definition pickReplica :: "'s proxy \<Rightarrow> 's pickBackend" where
  "pickReplica p s =
     (case replicaResolver p of
        None \<Rightarrow> (Some (Inl NilPointer), s)
      | Some rr \<Rightarrow>
          (case rr s of
             (None, s') \<Rightarrow> (None, s')
           | (Some (addr, ok), s') \<Rightarrow>
               if ok then (Some (Inr (addr, ''replica'')), s')
               else if replicaFallbackMaster p
               then (map_option (\<lambda>a. Inr (a, ''master (replica fallback)'')) (masterResolver p s'), s')
               else (Some (Inl NoHealthyReplica), s')))"

text \<open>
  The network at the time of a dial: \<open>net.DialTimeout\<close> and \<open>tls.DialWithDialer\<close> with their
  timeout yield an error, or the connection and what the reads of it will return.
\<close>

record network =
  nDial :: "string \<Rightarrow> int \<Rightarrow> io_error + (conn \<times> read_round list)"
  nDialTLS :: "string \<Rightarrow> int \<Rightarrow> tlsConfig \<Rightarrow> io_error + (conn \<times> read_round list)"

definition TCPConnectWithTimeout :: "network \<Rightarrow> string \<Rightarrow> io_error + (conn \<times> read_round list)" where
  "TCPConnectWithTimeout n addr = nDial n addr Second"

definition TLSConnectWithTimeout :: "network \<Rightarrow> string \<Rightarrow> tlsConfig \<Rightarrow> io_error + (conn \<times> read_round list)" where
  "TLSConnectWithTimeout n addr conf = nDialTLS n addr Second conf"

definition dialRedis :: "'s proxy \<Rightarrow> network \<Rightarrow> string \<Rightarrow> io_error + (conn \<times> read_round list)" where
  "dialRedis p n addr =
     (case dialTLSConf p of
        None \<Rightarrow> TCPConnectWithTimeout n addr
      | Some conf \<Rightarrow> TLSConnectWithTimeout n addr conf)"

text \<open>
  \<open>pickAndDial\<close> and \<open>connectBackend\<close>. The last component is the addresses that were
  dialled; \<open>n1\<close>, \<open>w\<close> and \<open>n2\<close> are the network at the first dial, what a refresh sees and the
  network at the second dial.
\<close>

type_synonym dialled = "proxy_error + ((conn \<times> read_round list) \<times> string \<times> string)"

definition pickAndDial ::
  "'s proxy \<Rightarrow> 's pickBackend \<Rightarrow> network \<Rightarrow> 's \<Rightarrow> dialled option \<times> 's \<times> string list" where
  "pickAndDial p pick n s =
     (case pick s of
        (None, s') \<Rightarrow> (None, s', [])
      | (Some (Inl e), s') \<Rightarrow> (Some (Inl e), s', [])
      | (Some (Inr (addr, label)), s') \<Rightarrow>
          (case dialRedis p n addr of
             Inl e \<Rightarrow> (Some (Inl (Connecting label addr e)), s', [addr])
           | Inr remote \<Rightarrow> (Some (Inr (remote, addr, label)), s', [addr])))"

definition connectBackend ::
  "'s proxy \<Rightarrow> 's pickBackend \<Rightarrow> network \<Rightarrow> world \<Rightarrow> network \<Rightarrow> 's \<Rightarrow> dialled option \<times> 's \<times> string list" where
  "connectBackend p pick n1 w n2 s =
     (case pickAndDial p pick n1 s of
        (Some (Inl e), s1, d1) \<Rightarrow>
          (case refresher p of
             None \<Rightarrow> (Some (Inl e), s1, d1)
           | Some refresh \<Rightarrow>
               (case pickAndDial p pick n2 (refresh w s1) of (res, s2, d2) \<Rightarrow> (res, s2, d1 @ d2)))
      | res \<Rightarrow> res)"

definition dialReplicaForRouting ::
  "'s proxy \<Rightarrow> world \<Rightarrow> network \<Rightarrow> 's \<Rightarrow> (proxy_error + ((conn \<times> read_round list) \<times> string) option) option \<times> 's \<times> string list" where
  "dialReplicaForRouting p w n s =
     (case replicaResolver p of
        None \<Rightarrow> (Some (Inl NilPointer), s, [])
      | Some rr \<Rightarrow>
          let dial = (\<lambda>(x, s'). case x of
             None \<Rightarrow> (None, s', [])
           | Some (addr, ok) \<Rightarrow>
               if \<not> ok then (Some (Inr None), s', [])
               else (case dialRedis p n addr of
                       Inl e \<Rightarrow> (Some (Inr None), s', [addr])
                     | Inr c \<Rightarrow> (Some (Inr (Some (c, addr))), s', [addr])))
          in (case rr s of
                (Some (addr, False), s1) \<Rightarrow>
                  (case refresher p of
                     None \<Rightarrow> dial (Some (addr, False), s1)
                   | Some refresh \<Rightarrow> dial (rr (refresh w s1)))
              | res \<Rightarrow> dial res))"

subsection \<open>Sessions\<close>

text \<open>
  An accepted connection: its write side, what the reads of it will return, and for a TLS connection the result of the
  handshake under a timeout.
\<close>

record incoming =
  inConn :: conn
  inReads :: "read_round list"
  inHandshake :: "(int \<Rightarrow> io_error option) option"

definition handshakeTimeout :: int where "handshakeTimeout = 10 * Second"

definition completeClientHandshake :: "incoming \<Rightarrow> bool" where
  "completeClientHandshake c =
     (case inHandshake c of None \<Rightarrow> True | Some hs \<Rightarrow> hs handshakeTimeout = None)"

text \<open>
  How the handling of a client ends: refused (with the client closed), blocked in a pick, or
  a session. The two pipes of a session work on disjoint data.
\<close>

datatype ending =
    HandshakeFailed conn
  | Blocked
  | Rejected proxy_error conn
  | Piped string string conn conn          \<comment> \<open>label, address, client, backend\<close>
  | Routed "string option" session_error routedSession

definition proxy_conn ::
  "'s proxy \<Rightarrow> 's pickBackend \<Rightarrow> network \<Rightarrow> world \<Rightarrow> network \<Rightarrow> incoming \<Rightarrow> 's \<Rightarrow> ending \<times> 's \<times> string list" where
  "proxy_conn p pick n1 w n2 c s =
     (if \<not> completeClientHandshake c then (HandshakeFailed (Close (inConn c)), s, [])
      else case connectBackend p pick n1 w n2 s of
        (None, s', d) \<Rightarrow> (Blocked, s', d)
      | (Some (Inl e), s', d) \<Rightarrow> (Rejected e (Close (inConn c)), s', d)
      | (Some (Inr ((remote, remoteR), addr, label)), s', d) \<Rightarrow>
          (case pipe (inConn c) (pipeReader p remoteR) of (_, client', _) \<Rightarrow>
             (case pipe remote (pipeReader p (inReads c)) of (_, remote', _) \<Rightarrow>
                (Piped label addr (Close client') (Close remote'), s', d))))"

definition routedProxy ::
  "(string \<Rightarrow> string) \<Rightarrow> 's proxy \<Rightarrow> network \<Rightarrow> world \<Rightarrow> network \<Rightarrow> world \<Rightarrow> network \<Rightarrow> incoming \<Rightarrow> 's \<Rightarrow>
     ending \<times> 's \<times> string list" where
  "routedProxy uni p n1 w n2 w' n3 c s =
     (if \<not> completeClientHandshake c then (HandshakeFailed (Close (inConn c)), s, [])
      else case connectBackend p (pickMaster p) n1 w n2 s of
        (None, s1, d) \<Rightarrow> (Blocked, s1, d)
      | (Some (Inl e), s1, d) \<Rightarrow> (Rejected e (Close (inConn c)), s1, d)
      | (Some (Inr ((remote, remoteR), addr, _)), s1, d) \<Rightarrow>
          (case dialReplicaForRouting p w' n3 s1 of
             (None, s2, d') \<Rightarrow> (Blocked, s2, d @ d')
           | (Some (Inl e), s2, d') \<Rightarrow> (Rejected e (Close (inConn c)), s2, d @ d')
           | (Some (Inr rep), s2, d') \<Rightarrow>
               (let sess = \<lparr>client = inConn c, clientR = routedReader p (inReads c), master = remote, masterR = routedReader p remoteR,
                       replica = map_option (fst \<circ> fst) rep,
                       replicaR = (case rep of None \<Rightarrow> \<lparr>avail = [], rerr = EOF\<rparr> | Some ((_, rr), _) \<Rightarrow> routedReader p rr),
                       dropped = None, reads = 0, writes = 0\<rparr>
                in (case run uni sess of
                      (e, t) \<Rightarrow>
                        (Routed (map_option snd rep) e
                           (t\<lparr>client := Close (client t), master := Close (master t),
                              replica := map_option Close (replica t)\<rparr>), s2, d @ d')))))"

subsection \<open>The listen loops\<close>

text \<open>
  The two listen loops share the semaphore. The state has the tokens in the channel, the
  sessions that run (each with its endpoint: is it routed) and the connections turned away.
\<close>

datatype endpoint = MasterEndpoint | ReplicaEndpoint

record server =
  tokens :: nat
  live :: "endpoint list"
  refused :: nat

definition idle_server :: server where
  "idle_server = \<lparr>tokens = 0, live = [], refused = 0\<rparr>"

text \<open>What happens to the loops: a connection or an error from \<open>Accept\<close>, or the end of the
  \<open>k\<close>-th running session.\<close>

datatype listen_event = Accepted endpoint | AcceptFailed endpoint | SessionEnded nat

definition remove_at :: "nat \<Rightarrow> 'a list \<Rightarrow> 'a list" where
  "remove_at k xs = take k xs @ drop (Suc k) xs"

text \<open>
  One iteration of \<open>runListenLoop\<close> after \<open>Accept\<close>, and the deferred release of a session. A
  send on a full channel is the default case of the select; \<open>None\<close> is an event that cannot
  happen.
\<close>

fun listen_step :: "nat option \<Rightarrow> listen_event \<Rightarrow> server \<Rightarrow> server option" where
  "listen_step lim (Accepted ep) st =
     (case lim of
        Some c \<Rightarrow>
          if tokens st < c then Some (st\<lparr>tokens := Suc (tokens st), live := live st @ [ep]\<rparr>)
          else Some (st\<lparr>refused := Suc (refused st)\<rparr>)
      | None \<Rightarrow> Some (st\<lparr>live := live st @ [ep]\<rparr>))"
| "listen_step lim (AcceptFailed ep) st = Some st"
| "listen_step lim (SessionEnded k) st =
     (if k < length (live st) then
        let st' = st\<lparr>live := remove_at k (live st)\<rparr>
        in (case lim of
              Some c \<Rightarrow> if tokens st = 0 then None else Some (st'\<lparr>tokens := tokens st - 1\<rparr>)
            | None \<Rightarrow> Some st')
      else None)"

inductive serving :: "nat option \<Rightarrow> server \<Rightarrow> bool" for lim where
  idle: "serving lim idle_server"
| step: "serving lim st \<Longrightarrow> listen_step lim ev st = Some st' \<Longrightarrow> serving lim st'"

inductive_cases serving_stepE: "serving lim st"

subsection \<open>Run\<close>

text \<open>
  The listeners of \<open>Run\<close>: \<open>net.ListenTCP\<close> is a function of the address; an opened listener
  is the endpoint, whether it serves TLS and whether its sessions are routed. On an error the
  listeners opened before are closed.
\<close>

record listener =
  lnEndpoint :: endpoint
  lnAddr :: tcpAddr
  lnTLS :: bool
  lnRouted :: bool

datatype run_start = RunFailed io_error "listener list" | RunListening "listener list"

definition Run :: "'s proxy \<Rightarrow> (tcpAddr \<Rightarrow> io_error option) \<Rightarrow> run_start" where
  "Run p listen =
     (let open_master = (case localAddr p of
            None \<Rightarrow> Inr []
          | Some a \<Rightarrow> (case listen a of
              Some e \<Rightarrow> Inl e
            | None \<Rightarrow> Inr [\<lparr>lnEndpoint = MasterEndpoint, lnAddr = a, lnTLS = (tlsConf p \<noteq> None), lnRouted = router p\<rparr>]))
      in case open_master of
           Inl e \<Rightarrow> RunFailed e []
         | Inr ls \<Rightarrow>
             (case replicaAddr p of
                None \<Rightarrow> RunListening ls
              | Some a \<Rightarrow> (case listen a of
                  Some e \<Rightarrow> RunFailed e ls
                | None \<Rightarrow> RunListening (ls @ [\<lparr>lnEndpoint = ReplicaEndpoint, lnAddr = a,
                    lnTLS = (tlsConf p \<noteq> None), lnRouted = False\<rparr>]))))"

text \<open>The handling of an accepted connection by the listener it came from.\<close>

definition handle ::
  "(string \<Rightarrow> string) \<Rightarrow> 's proxy \<Rightarrow> listener \<Rightarrow> network \<Rightarrow> world \<Rightarrow> network \<Rightarrow> world \<Rightarrow> network \<Rightarrow> incoming \<Rightarrow> 's \<Rightarrow>
     ending \<times> 's \<times> string list" where
  "handle uni p l n1 w n2 w' n3 c s =
     (if lnRouted l then routedProxy uni p n1 w n2 w' n3 c s
      else proxy_conn p (case lnEndpoint l of MasterEndpoint \<Rightarrow> pickMaster p | ReplicaEndpoint \<Rightarrow> pickReplica p)
             n1 w n2 c s)"

section \<open>Facts\<close>

subsection \<open>The constructor\<close>

lemma masterEndpoint_ok:
  assumes "masterEndpoint resolve cfg p = Inr p'" "localAddr p = None"
  obtains la where "p' = p\<lparr>localAddr := la\<rparr>" "(la \<noteq> None) = strSet (Listen cfg)"
proof (cases "strSet (Listen cfg)")
  case True
  with assms that show thesis by (auto simp: masterEndpoint_def split: option.splits)
next
  case False
  with assms that [of None] show thesis by (cases p) (simp add: masterEndpoint_def)
qed

lemma replicaEndpoint_ok:
  assumes "replicaEndpoint resolve cfg m p = Inr p'" "replicaAddr p = None" "replicaResolver p = None"
    "\<not> replicaFallbackMaster p"
  obtains "\<not> strSet (ReplicaListen cfg)" "p' = p"
  | ra rr fb where "strSet (ReplicaListen cfg)" "iReplicaAddress m = Some rr" "ReplicaFallback cfg = Some fb"
      "p' = p\<lparr>replicaAddr := Some ra, replicaResolver := Some rr,
         replicaFallbackMaster := (fb = ReplicaFallbackMaster)\<rparr>"
proof (cases "strSet (ReplicaListen cfg)")
  case True
  with assms that(2) show thesis
    by (auto simp: replicaEndpoint_def derefP_def split: option.splits)
next
  case False
  with assms that(1) show thesis by (simp add: replicaEndpoint_def)
qed

lemma routerMode_ok:
  assumes "routerMode cfg m p = Inr p'" "\<not> router p"
  obtains "RouterMode cfg \<noteq> Some True" "p' = p"
  | rr where "RouterMode cfg = Some True" "localAddr p \<noteq> None" "iReplicaAddress m = Some rr"
      "p' = p\<lparr>replicaResolver := Some rr, router := True\<rparr>"
  using assms by (auto simp: routerMode_def split: if_splits option.splits)

text \<open>The proxy that the constructor returns, field by field.\<close>

lemma New_proxy_fields:
  assumes "NewRedisSentinelProxy resolve cfg m = Inr p"
  shows "masterResolver p = iMasterAddress m" "refresher p = iRefreshAddresses m"
    "replicaResolver p = None \<or> replicaResolver p = iReplicaAddress m"
    "localAddr p \<noteq> None \<or> replicaAddr p \<noteq> None"
    "replicaAddr p \<noteq> None \<Longrightarrow> replicaResolver p \<noteq> None"
    "router p \<Longrightarrow> replicaResolver p \<noteq> None \<and> localAddr p \<noteq> None"
    "dialTLSConf p = MasterTLSConfig cfg" "tlsConf p = ListenTLSConfig cfg"
    "sem p = (if 0 < the (MaxConnections cfg) then Some (nat (the (MaxConnections cfg))) else None)"
    "(localAddr p \<noteq> None) = strSet (Listen cfg)" "(replicaAddr p \<noteq> None) = strSet (ReplicaListen cfg)"
    "router p \<longleftrightarrow> RouterMode cfg = Some True"
    "replicaFallbackMaster p \<Longrightarrow> ReplicaFallback cfg = Some ReplicaFallbackMaster"
proof -
  from assms obtain p0 p1 p2 where s: "proxyFields cfg m = Inr p0" "masterEndpoint resolve cfg p0 = Inr p1"
    "replicaEndpoint resolve cfg m p1 = Inr p2" "localAddr p2 \<noteq> None \<or> replicaAddr p2 \<noteq> None"
    "routerMode cfg m p2 = Inr p"
    by (auto simp: NewRedisSentinelProxy_def bindR_Inr_iff split: if_splits)
  have p0: "masterResolver p0 = iMasterAddress m" "refresher p0 = iRefreshAddresses m"
    "replicaResolver p0 = None" "localAddr p0 = None" "replicaAddr p0 = None" "\<not> router p0"
    "\<not> replicaFallbackMaster p0" "dialTLSConf p0 = MasterTLSConfig cfg" "tlsConf p0 = ListenTLSConfig cfg"
    "sem p0 = (if 0 < the (MaxConnections cfg) then Some (nat (the (MaxConnections cfg))) else None)"
    using s(1) by (auto simp: proxyFields_def derefP_def bindR_Inr_iff split: option.splits)
  obtain la where p1: "p1 = p0\<lparr>localAddr := la\<rparr>" "(la \<noteq> None) = strSet (Listen cfg)"
    using masterEndpoint_ok [OF s(2) p0(4)] .
  have r1: "replicaAddr p1 = None" "replicaResolver p1 = None" "\<not> replicaFallbackMaster p1"
    using p0 p1 by simp_all
  have "masterResolver p = iMasterAddress m \<and> refresher p = iRefreshAddresses m \<and>
    (replicaResolver p = None \<or> replicaResolver p = iReplicaAddress m) \<and>
    (localAddr p \<noteq> None \<or> replicaAddr p \<noteq> None) \<and>
    (replicaAddr p \<noteq> None \<longrightarrow> replicaResolver p \<noteq> None) \<and>
    (router p \<longrightarrow> replicaResolver p \<noteq> None \<and> localAddr p \<noteq> None) \<and>
    dialTLSConf p = MasterTLSConfig cfg \<and> tlsConf p = ListenTLSConfig cfg \<and> sem p = sem p0 \<and>
    (localAddr p \<noteq> None) = strSet (Listen cfg) \<and> (replicaAddr p \<noteq> None) = strSet (ReplicaListen cfg) \<and>
    router p = (RouterMode cfg = Some True) \<and>
    (replicaFallbackMaster p \<longrightarrow> ReplicaFallback cfg = Some ReplicaFallbackMaster)"
  proof (cases rule: replicaEndpoint_ok [OF s(3) r1, case_names no yes])
    case no
    with p0 p1 s(4) show ?thesis
      by (cases rule: routerMode_ok [OF s(5)]) simp_all
  next
    case (yes ra rr fb)
    with p0 p1 s(4) show ?thesis
      by (cases rule: routerMode_ok [OF s(5)]) simp_all
  qed
  then show "masterResolver p = iMasterAddress m" "refresher p = iRefreshAddresses m"
    "replicaResolver p = None \<or> replicaResolver p = iReplicaAddress m"
    "localAddr p \<noteq> None \<or> replicaAddr p \<noteq> None"
    "replicaAddr p \<noteq> None \<Longrightarrow> replicaResolver p \<noteq> None"
    "router p \<Longrightarrow> replicaResolver p \<noteq> None \<and> localAddr p \<noteq> None"
    "dialTLSConf p = MasterTLSConfig cfg" "tlsConf p = ListenTLSConfig cfg"
    "sem p = (if 0 < the (MaxConnections cfg) then Some (nat (the (MaxConnections cfg))) else None)"
    "(localAddr p \<noteq> None) = strSet (Listen cfg)" "(replicaAddr p \<noteq> None) = strSet (ReplicaListen cfg)"
    "router p \<longleftrightarrow> RouterMode cfg = Some True"
    "replicaFallbackMaster p \<Longrightarrow> ReplicaFallback cfg = Some ReplicaFallbackMaster"
    using p0(10) by (simp_all del: not_None_eq) blast
qed

subsection \<open>What the proxy relies on\<close>

text \<open>
  The contract between the proxy and a resolver: in a good state the addresses it hands out
  satisfy \<open>master_ok\<close> and \<open>replica_ok\<close>, and picks and refreshes (in the worlds \<open>sees\<close>) keep
  the state good.
\<close>

locale address_provider =
  fixes m :: "'s resolverI" and good :: "'s \<Rightarrow> bool" and sees :: "world \<Rightarrow> bool"
    and master_ok :: "string \<Rightarrow> bool" and replica_ok :: "string \<Rightarrow> bool"
  assumes master_law: "good s \<Longrightarrow> iMasterAddress m s = Some a \<Longrightarrow> master_ok a"
    and replica_law: "good s \<Longrightarrow> iReplicaAddress m = Some f \<Longrightarrow> f s = (x, s') \<Longrightarrow>
          good s' \<and> (\<forall>a. x = Some (a, True) \<longrightarrow> replica_ok a)"
    and refresh_law: "good s \<Longrightarrow> sees w \<Longrightarrow> iRefreshAddresses m = Some g \<Longrightarrow> good (g w s)"
begin

text \<open>A proxy that uses this resolver.\<close>

definition wired :: "'s proxy \<Rightarrow> bool" where
  "wired p \<longleftrightarrow> masterResolver p = iMasterAddress m \<and> refresher p = iRefreshAddresses m \<and>
     (replicaResolver p = None \<or> replicaResolver p = iReplicaAddress m)"

definition sound_pick :: "(string \<Rightarrow> bool) \<Rightarrow> 's pickBackend \<Rightarrow> bool" where
  "sound_pick P pick \<longleftrightarrow> (\<forall>s x s'. good s \<longrightarrow> pick s = (x, s') \<longrightarrow>
     good s' \<and> (\<forall>a l. x = Some (Inr (a, l)) \<longrightarrow> P a))"

lemma sound_pickMaster: "wired p \<Longrightarrow> sound_pick master_ok (pickMaster p)"
  by (auto simp: sound_pick_def pickMaster_def wired_def dest: master_law)

lemma sound_pickReplica:
  assumes "wired p"
  shows "sound_pick (\<lambda>a. replica_ok a \<or> replicaFallbackMaster p \<and> master_ok a) (pickReplica p)"
proof (cases "replicaResolver p")
  case None
  then show ?thesis by (simp add: sound_pick_def pickReplica_def)
next
  case (Some rr)
  with assms have rr: "iReplicaAddress m = Some rr" by (auto simp: wired_def)
  have mr: "masterResolver p = iMasterAddress m" using assms by (simp add: wired_def)
  show ?thesis
    unfolding sound_pick_def
  proof (intro allI impI)
    fix s x s'
    assume "good s" and x: "pickReplica p s = (x, s')"
    obtain y t where y: "rr s = (y, t)" by (cases "rr s")
    note l = replica_law [OF \<open>good s\<close> rr y]
    with x y Some mr show "good s' \<and> (\<forall>a l. x = Some (Inr (a, l)) \<longrightarrow> replica_ok a \<or> replicaFallbackMaster p \<and> master_ok a)"
      by (auto simp: pickReplica_def split: option.splits if_splits dest: master_law)
  qed
qed

lemma pickAndDial_sound:
  assumes "sound_pick P pick" "good s" "pickAndDial p pick n s = (x, s', d)"
  shows "good s' \<and> (\<forall>a\<in>set d. P a)"
  using assms by (fastforce simp: pickAndDial_def sound_pick_def split: prod.splits option.splits sum.splits)

lemma connectBackend_sound:
  assumes "wired p" "sound_pick P pick" "good s" "sees w" "connectBackend p pick n1 w n2 s = (x, s', d)"
  shows "good s' \<and> (\<forall>a\<in>set d. P a)"
proof -
  obtain y s1 d1 where f: "pickAndDial p pick n1 s = (y, s1, d1)" by (cases "pickAndDial p pick n1 s")
  note g1 = pickAndDial_sound [OF assms(2,3) f]
  show ?thesis
  proof (cases "(\<exists>e. y = Some (Inl e)) \<and> refresher p \<noteq> None")
    case True
    then obtain e g where t: "y = Some (Inl e)" "refresher p = Some g" by blast
    have "good (g w s1)" using refresh_law g1 assms(1,4) t(2) by (simp add: wired_def)
    moreover obtain z s2 d2 where "pickAndDial p pick n2 (g w s1) = (z, s2, d2)"
      by (cases "pickAndDial p pick n2 (g w s1)")
    ultimately show ?thesis
      using pickAndDial_sound [OF assms(2), of "g w s1" p n2] g1 t f assms(5)
      by (auto simp: connectBackend_def)
  next
    case False
    then have "connectBackend p pick n1 w n2 s = (y, s1, d1)"
      using f by (auto simp: connectBackend_def split: option.splits sum.splits)
    with g1 assms(5) show ?thesis by simp
  qed
qed

lemma dialReplicaForRouting_sound:
  assumes "wired p" "good s" "sees w" "dialReplicaForRouting p w n s = (x, s', d)"
  shows "good s' \<and> (\<forall>a\<in>set d. replica_ok a)"
proof (cases "replicaResolver p")
  case None
  with assms show ?thesis by (simp add: dialReplicaForRouting_def)
next
  case (Some rr)
  with assms(1) have rr: "iReplicaAddress m = Some rr" by (auto simp: wired_def)
  have step: "good t \<Longrightarrow> rr t = (y, t') \<Longrightarrow> good t' \<and> (\<forall>a. y = Some (a, True) \<longrightarrow> replica_ok a)" for t y t'
    using replica_law [OF _ rr] by blast
  have fresh: "good t \<Longrightarrow> refresher p = Some g \<Longrightarrow> good (g w t)" for t g
    using refresh_law assms(1,3) by (simp add: wired_def)
  obtain y s1 where y: "rr s = (y, s1)" by (cases "rr s")
  note g1 = step [OF assms(2) y]
  show ?thesis
  proof (cases "\<exists>a g. y = Some (a, False) \<and> refresher p = Some g")
    case True
    then obtain a g where t: "y = Some (a, False)" "refresher p = Some g" by blast
    obtain z s2 where z: "rr (g w s1) = (z, s2)" by (cases "rr (g w s1)")
    from step [OF fresh [OF _ t(2)] z] g1 have "good s2 \<and> (\<forall>a. z = Some (a, True) \<longrightarrow> replica_ok a)" by blast
    with assms(4) Some y t z show ?thesis
      by (auto simp: dialReplicaForRouting_def Let_def split: option.splits if_splits sum.splits)
  next
    case False
    with assms(4) Some y g1 show ?thesis
      by (auto simp: dialReplicaForRouting_def Let_def split: option.splits if_splits sum.splits bool.splits)
  qed
qed

lemma proxy_conn_sound:
  assumes "wired p" "sound_pick P pick" "good s" "sees w" "proxy_conn p pick n1 w n2 c s = (x, s', d)"
  shows "good s' \<and> (\<forall>a\<in>set d. P a)"
proof -
  obtain y t e where k: "connectBackend p pick n1 w n2 s = (y, t, e)" by (cases "connectBackend p pick n1 w n2 s")
  have "(s', d) = (s, []) \<or> (s', d) = (t, e)"
    using assms(5) k by (auto simp: proxy_conn_def split: if_splits option.splits sum.splits prod.splits)
  with connectBackend_sound [OF assms(1-4) k] assms(3) show ?thesis by auto
qed

lemma routedProxy_sound:
  assumes "wired p" "good s" "sees w" "sees w'" "routedProxy uni p n1 w n2 w' n3 c s = (x, s', d)"
  shows "good s' \<and> (\<forall>a\<in>set d. master_ok a \<or> replica_ok a)"
proof -
  obtain y t e where k: "connectBackend p (pickMaster p) n1 w n2 s = (y, t, e)"
    by (cases "connectBackend p (pickMaster p) n1 w n2 s")
  obtain z u f where r: "dialReplicaForRouting p w' n3 t = (z, u, f)" by (cases "dialReplicaForRouting p w' n3 t")
  note g = connectBackend_sound [OF assms(1) sound_pickMaster [OF assms(1)] assms(2,3) k]
  have "(s', d) = (s, []) \<or> (s', d) = (t, e) \<or> (s', d) = (u, e @ f)"
    using assms(5) k r by (auto simp: routedProxy_def Let_def split: if_splits option.splits sum.splits prod.splits)
  with g dialReplicaForRouting_sound [OF assms(1) _ assms(4) r] assms(2) show ?thesis by auto
qed

lemma handle_sound:
  assumes "wired p" "good s" "sees w" "sees w'" "handle uni p l n1 w n2 w' n3 c s = (x, s', d)"
  shows "good s' \<and> (\<forall>a\<in>set d. master_ok a \<or> replica_ok a) \<and>
    (lnEndpoint l = MasterEndpoint \<and> \<not> lnRouted l \<longrightarrow> (\<forall>a\<in>set d. master_ok a)) \<and>
    (lnEndpoint l = ReplicaEndpoint \<and> \<not> lnRouted l \<and> \<not> replicaFallbackMaster p \<longrightarrow> (\<forall>a\<in>set d. replica_ok a))"
proof (cases "lnRouted l")
  case True
  with assms routedProxy_sound [of p s w w' uni n1 n2 n3 c x s' d] show ?thesis by (simp add: handle_def)
next
  case False
  show ?thesis
  proof (cases "lnEndpoint l")
    case MasterEndpoint
    with False assms proxy_conn_sound [OF assms(1) sound_pickMaster [OF assms(1)] assms(2,3)] show ?thesis
      by (simp add: handle_def)
  next
    case ReplicaEndpoint
    with False assms proxy_conn_sound [OF assms(1) sound_pickReplica [OF assms(1)] assms(2,3)] show ?thesis
      by (simp add: handle_def) blast
  qed
qed

end

text \<open>The method table of \<open>RedisMasterResolver\<close>, which implements all three interfaces.\<close>

definition resolver_methods :: "resolver resolverI" where
  "resolver_methods = \<lparr>iMasterAddress = MasterAddress, iReplicaAddress = Some ReplicaAddress,
     iRefreshAddresses = Some RefreshAddresses\<rparr>"

text \<open>
  The states of a resolver that was created as \<open>r0\<close> and has only seen worlds of \<open>W\<close>. A
  reply of the sentinel client is a Go slice, whose length is an \<open>int\<close>.
\<close>

definition go_world :: "world \<Rightarrow> bool" where
  "go_world w \<longleftrightarrow> (\<forall>c n fss. wReplicas w c n = Inr fss \<longrightarrow> length fss < 2 ^ 63)"

definition running :: "resolver \<Rightarrow> world set \<Rightarrow> resolver \<Rightarrow> bool" where
  "running r0 W r \<longleftrightarrow> (\<forall>w\<in>W. go_world w) \<and>
     (\<exists>cfg as. NewRedisMasterResolver cfg = Inr r0 \<and> reaches r0 as r \<and> action_worlds as \<subseteq> W)"

lemma running_act: "running r0 W r \<Longrightarrow> action_worlds [a] \<subseteq> W \<Longrightarrow> running r0 W (act a r)"
  unfolding running_def
  by (metis reaches.step action_worlds_append le_sup_iff)

lemma running_verified:
  assumes "running r0 W r"
  shows "masterAddr r = [] \<or> (\<exists>w\<in>W. verified_master w r0 (masterAddr r))"
    "a \<in> set (replicaAddrs r) \<Longrightarrow> \<exists>w\<in>W. verified_replica w r0 a"
    "\<not> trackReplicas r0 \<Longrightarrow> replicaAddrs r = []"
proof -
  from assms obtain cfg as where "NewRedisMasterResolver cfg = Inr r0" "reaches r0 as r" "action_worlds as \<subseteq> W"
    by (auto simp: running_def)
  then have "serves_verified r0 (action_worlds as) r"
    using reaches_serves_verified [of r0 as r] New_fresh [of cfg r0] by (simp add: serves_verified_def)
  with \<open>action_worlds as \<subseteq> W\<close> show "masterAddr r = [] \<or> (\<exists>w\<in>W. verified_master w r0 (masterAddr r))"
    "a \<in> set (replicaAddrs r) \<Longrightarrow> \<exists>w\<in>W. verified_replica w r0 a"
    "\<not> trackReplicas r0 \<Longrightarrow> replicaAddrs r = []"
    by (auto simp: serves_verified_def)
qed

lemma usable_replicas_length:
  assumes "go_world w"
  shows "length (usable_replicas w r) < 2 ^ 63"
proof (cases "wReplicas w (sentinel r) (masterName r)")
  case (Inr fss)
  have "length (usable_replicas w r) \<le> length fss"
    using Inr by (simp add: usable_replicas_def map_filter_def)
  also have "\<dots> < 2 ^ 63" using assms Inr unfolding go_world_def by blast
  finally show ?thesis .
qed (simp add: usable_replicas_def)

lemma running_length:
  assumes "running r0 W r"
  shows "length (replicaAddrs r) < 2 ^ 63"
proof -
  from assms obtain cfg as where W: "\<forall>w\<in>W. go_world w" "NewRedisMasterResolver cfg = Inr r0"
    and "reaches r0 as r" "action_worlds as \<subseteq> W"
    by (auto simp: running_def)
  from \<open>reaches r0 as r\<close> \<open>action_worlds as \<subseteq> W\<close> show ?thesis
  proof (induction rule: reaches.induct)
    case start
    then show ?case using New_fresh [OF W(2)] by simp
  next
    case (step as r a)
    then have ih: "length (replicaAddrs r) < 2 ^ 63" "action_worlds [a] \<subseteq> W"
      by (simp_all add: action_worlds_append)
    show ?case
    proof (rule act_served [of a r])
      assume "served (act a r) = served r"
      with ih show ?thesis by (simp add: served_def)
    next
      fix w r1 assume "w \<in> action_worlds [a]" "served (act a r) = serve r1 w (served r)"
      with ih W(1) usable_replicas_length [of w r1] show ?thesis
        by (auto simp: served_def serve_def split: sum.splits if_splits)
    qed
  qed
qed

lemma ReplicaAddress_member:
  assumes "ReplicaAddress r = (Some (a, True), r')" "length (replicaAddrs r) < 2 ^ 63"
  shows "a \<in> set (replicaAddrs r)"
proof -
  have "initialDone r" "replicaAddrs r \<noteq> []"
    using assms(1) by (auto simp: ReplicaAddress_def split: if_splits)
  with assms show ?thesis by (auto simp: ReplicaAddress_pick)
qed

text \<open>The resolver keeps the contract, from any start and whatever it sees.\<close>

interpretation sentinel_resolver: address_provider resolver_methods "running r0 W" "\<lambda>w. w \<in> W"
    "\<lambda>a. a = [] \<or> (\<exists>w\<in>W. verified_master w r0 a)" "\<lambda>a. \<exists>w\<in>W. verified_replica w r0 a"
  for r0 W
proof
  fix s a
  assume "running r0 W s" "iMasterAddress resolver_methods s = Some a"
  then show "a = [] \<or> (\<exists>w\<in>W. verified_master w r0 a)"
    using running_verified(1) [of r0 W s] by (simp add: resolver_methods_def MasterAddress_def split: if_splits)
next
  fix s f x s'
  assume s: "running r0 W s" "iReplicaAddress resolver_methods = Some f" "f s = (x, s')"
  then have "ReplicaAddress s = (x, s')" by (simp add: resolver_methods_def)
  then show "running r0 W s' \<and> (\<forall>a. x = Some (a, True) \<longrightarrow> (\<exists>w\<in>W. verified_replica w r0 a))"
    using running_act [OF s(1), of PickReplica] running_verified(2) [OF s(1)]
      ReplicaAddress_member [OF _ running_length [OF s(1)]] by auto
next
  fix s w g
  assume "running r0 W s" "w \<in> W" "iRefreshAddresses resolver_methods = Some g"
  then show "running r0 W (g w s)"
    using running_act [of r0 W s "Refresh w"] by (simp add: resolver_methods_def)
qed

subsection \<open>The connection limit\<close>

lemma length_remove_at [simp]: "k < length xs \<Longrightarrow> length (remove_at k xs) = length xs - 1"
  by (simp add: remove_at_def)

text \<open>The tokens in the channel are the running sessions.\<close>

lemma serving_invariant:
  "serving lim st \<Longrightarrow> case lim of None \<Rightarrow> tokens st = 0 | Some c \<Rightarrow> tokens st = length (live st) \<and> length (live st) \<le> c"
proof (induction rule: serving.induct)
  case idle
  then show ?case by (simp add: idle_server_def split: option.splits)
next
  case (step st ev st')
  then show ?case
    by (cases ev) (auto simp: Let_def split: option.splits if_splits)
qed

subsection \<open>What the readers of a session deliver\<close>

text \<open>The byte counter changes nothing.\<close>

lemma countedReads_same: "fst (countedReads n rs) = rs"
  by (induction n rs rule: countedReads.induct) (auto simp: countingReader_Read_def split: prod.splits)

lemma pipeReader_routed: "pipeReader p rds = routedReader p rds"
  by (simp add: pipeReader_def routedReader_def countedReads_same)

text \<open>
  The specification: the round with which reading from a connection is over, the bytes a round
  contributes, and all that is delivered.
\<close>

definition read_over :: "int \<Rightarrow> read_round \<Rightarrow> bool" where
  "read_over timeout rd \<longleftrightarrow>
     (if 0 < timeout
      then rrDeadline rd \<noteq> None \<or>
        rrErr rd \<noteq> None \<and> \<not> (rrErr rd = Some DeadlineExceeded \<and> (rrBytes rd \<noteq> [] \<or> rrNow rd - rrActivity rd < timeout))
      else rrErr rd \<noteq> None)"

definition read_bytes :: "int \<Rightarrow> read_round \<Rightarrow> bytes" where
  "read_bytes timeout rd =
     (if 0 < timeout \<and> (rrDeadline rd \<noteq> None \<or> rrErr rd = Some DeadlineExceeded) then [] else rrBytes rd)"

definition delivered :: "int \<Rightarrow> read_round list \<Rightarrow> bytes" where
  "delivered timeout rds =
     concat (map (read_bytes timeout)
       (takeWhile (\<lambda>rd. \<not> read_over timeout rd) rds @ take 1 (dropWhile (\<lambda>rd. \<not> read_over timeout rd) rds)))"

text \<open>
  What the reads of the connection returned until then, and the reads whose bytes are lost: those
  that a connection returns together with a passed deadline.
\<close>

definition received :: "int \<Rightarrow> read_round list \<Rightarrow> bytes" where
  "received timeout rds =
     concat (map (\<lambda>rd. if 0 < timeout \<and> rrDeadline rd \<noteq> None then [] else rrBytes rd)
       (takeWhile (\<lambda>rd. \<not> read_over timeout rd) rds @ take 1 (dropWhile (\<lambda>rd. \<not> read_over timeout rd) rds)))"

definition loses :: "int \<Rightarrow> read_round \<Rightarrow> bool" where
  "loses timeout rd \<longleftrightarrow>
     0 < timeout \<and> rrDeadline rd = None \<and> rrErr rd = Some DeadlineExceeded \<and> rrBytes rd \<noteq> []"

lemma idleReads_Nil [simp]: "idleReads timeout [] = []"
  by (simp add: idleReads.simps)

lemma idleReads_Cons:
  assumes "0 < timeout"
  shows "idleReads timeout (rd # rds) =
    (if rrDeadline rd \<noteq> None then ([], rrDeadline rd) # idleReads timeout rds
     else if rrErr rd = Some DeadlineExceeded \<and> (rrBytes rd \<noteq> [] \<or> rrNow rd - rrActivity rd < timeout)
     then idleReads timeout rds
     else (rrBytes rd, rrErr rd) # idleReads timeout rds)"
proof (cases "rrDeadline rd = None \<and> rrErr rd = Some DeadlineExceeded \<and> (rrBytes rd \<noteq> [] \<or> rrNow rd - rrActivity rd < timeout)")
  case True
  then have eqs: "idleConn_Read timeout (rd # rds) = idleConn_Read timeout rds"
    "idleConn_rest timeout (rd # rds) = idleConn_rest timeout rds" using assms by auto
  have "idleReads timeout (rd # rds) = idleReads timeout rds"
    unfolding idleReads.simps [of timeout "rd # rds"] idleReads.simps [of timeout rds] eqs ..
  with True show ?thesis by simp
next
  case False
  with assms show ?thesis
    by (auto simp: idleReads.simps [of timeout "rd # rds"] Let_def split: option.splits)
qed

lemma delivered_Cons:
  "delivered timeout (rd # rds) = read_bytes timeout rd @ (if read_over timeout rd then [] else delivered timeout rds)"
  by (simp add: delivered_def)

lemma received_Cons:
  "received timeout (rd # rds) =
     (if 0 < timeout \<and> rrDeadline rd \<noteq> None then [] else rrBytes rd) @
     (if read_over timeout rd then [] else received timeout rds)"
  by (simp add: received_def)

lemma delivered_received: "\<forall>rd\<in>set rds. \<not> loses timeout rd \<Longrightarrow> delivered timeout rds = received timeout rds"
proof (induction rds)
  case (Cons rd rds)
  then show ?case by (auto simp: delivered_Cons received_Cons read_bytes_def loses_def)
qed (simp add: delivered_def received_def)

lemma idle_delivered: "0 < timeout \<Longrightarrow> avail (streamOf (idleReads timeout rds)) = delivered timeout rds"
proof (induction rds)
  case (Cons rd rds)
  then show ?case
    by (auto simp: idleReads_Cons delivered_Cons read_over_def read_bytes_def Let_def split: option.splits)
qed (simp add: delivered_def)

lemma conn_delivered: "\<not> 0 < timeout \<Longrightarrow> avail (streamOf (connReads rds)) = delivered timeout rds"
proof (induction rds)
  case (Cons rd rds)
  then show ?case
    by (auto simp: connReads_def delivered_Cons read_over_def read_bytes_def Let_def split: option.splits)
qed (simp add: delivered_def connReads_def)

lemma session_delivered [simp]: "avail (routedReader p rds) = delivered (idleTimeout p) rds"
  by (simp add: routedReader_def sessionReads_def idle_delivered conn_delivered)

subsection \<open>The idle clock\<close>

text \<open>Where \<open>idleConn.Read\<close> stops: after rounds that all ended on a deadline with recent activity.\<close>

lemma idleConn_Read_stops:
  assumes "idleConn_Read timeout rds = Some (b, e, clk)"
  obtains pre rd post where "rds = pre @ rd # post"
    "\<forall>x\<in>set pre. rrDeadline x = None \<and> rrErr x = Some DeadlineExceeded"
    "rrDeadline rd = None \<and> b = rrBytes rd \<and> e = rrErr rd \<and> clk = (if b \<noteq> [] then rrNow rd else rrActivity rd) \<and>
       (e = Some DeadlineExceeded \<longrightarrow> timeout \<le> rrNow rd - clk) \<or>
     rrDeadline rd \<noteq> None \<and> b = [] \<and> e = rrDeadline rd"
proof -
  have "\<exists>pre rd post. rds = pre @ rd # post \<and>
      (\<forall>x\<in>set pre. rrDeadline x = None \<and> rrErr x = Some DeadlineExceeded) \<and>
      (rrDeadline rd = None \<and> b = rrBytes rd \<and> e = rrErr rd \<and> clk = (if b \<noteq> [] then rrNow rd else rrActivity rd) \<and>
         (e = Some DeadlineExceeded \<longrightarrow> timeout \<le> rrNow rd - clk) \<or>
       rrDeadline rd \<noteq> None \<and> b = [] \<and> e = rrDeadline rd)"
    using assms
  proof (induction timeout rds rule: idleConn_Read.induct)
    case (2 timeout rd rds)
    let ?act = "if rrBytes rd \<noteq> [] then rrNow rd else rrActivity rd"
    show ?case
    proof (cases "rrDeadline rd = None \<and> rrErr rd = Some DeadlineExceeded \<and> rrNow rd - ?act < timeout")
      case True
      with "2.prems" have "idleConn_Read timeout rds = Some (b, e, clk)" by (simp add: Let_def)
      with "2.IH" True obtain pre r post where "rds = pre @ r # post"
        "\<forall>x\<in>set pre. rrDeadline x = None \<and> rrErr x = Some DeadlineExceeded"
        "rrDeadline r = None \<and> b = rrBytes r \<and> e = rrErr r \<and> clk = (if b \<noteq> [] then rrNow r else rrActivity r) \<and>
           (e = Some DeadlineExceeded \<longrightarrow> timeout \<le> rrNow r - clk) \<or>
         rrDeadline r \<noteq> None \<and> b = [] \<and> e = rrDeadline r"
        by auto
      with True show ?thesis by (intro exI [of _ "rd # pre"] exI [of _ r] exI [of _ post]) auto
    next
      case False
      with "2.prems" show ?thesis
        by (intro exI [of _ "[]"] exI [of _ rd] exI [of _ rds]) (auto simp: Let_def split: option.splits if_splits)
    qed
  qed simp
  then show thesis using that by blast
qed

end
