(* ===== verification/Resolving.thy ===== *)
theory Resolving
  imports Resolver
begin

text \<open>
  What \<open>pkg/master_resolver\<close> promises its clients: which addresses it serves, how its loops
  spend their retry budget, how replicas are picked and how refreshes are throttled. The
  definitions and the lemmas behind the proofs are in theory \<open>Resolver\<close>.
\<close>

section \<open>Facts\<close>

text \<open>What makes an address the master of an attempt.\<close>

definition master_found :: "world \<Rightarrow> resolver \<Rightarrow> string \<Rightarrow> bool" where
  "master_found w r addr \<longleftrightarrow>
     (\<exists>host port. wMaster w (sentinel r) (masterName r) = Inr [host, port] \<and> usable w host port addr) \<and>
     answers_role w r addr ''master''"

definition replica_found :: "world \<Rightarrow> resolver \<Rightarrow> (string \<rightharpoonup> string) \<Rightarrow> string \<Rightarrow> bool" where
  "replica_found w r fs addr \<longleftrightarrow>
     \<not> flaggedDown fs \<and> \<not> linkDown fs \<and> usable w (field fs ''ip'') (field fs ''port'') addr \<and>
     answers_role w r addr ''slave''"

lemma usable_iff: "usable w host port addr \<longleftrightarrow> (\<exists>a. usableTCPAddr w host port = Inr a \<and> addr = TCPAddr_String a)"
  by (auto simp: usableTCPAddr_def usable_def Atoi_def ParseInt_def
      split: if_splits option.splits sum.splits resolve_failure.splits)

lemma master_found_iff: "master_found w r addr \<longleftrightarrow> master_verdict w r = Inr addr"
  unfolding master_found_def master_verdict_def resolveMasterAddress_def usable_iff
  by (auto split: sum.splits redis_error.splits list.splits option.splits prod.splits simp: checkRole_None [symmetric])

lemma replica_found_iff: "replica_found w r fs addr \<longleftrightarrow> replica_address w r fs = Some addr"
  by (auto simp: replica_found_def replica_address_def usable_iff checkRole_None [symmetric]
      split: sum.splits if_splits)

subsection \<open>A sentinel, a master and a replica to evaluate\<close>

definition sample_cfg :: config where
  "sample_cfg = Default\<lparr>ReplicaListen := Some '':9999''\<rparr>"

definition sample_resolver :: resolver where
  "sample_resolver = projr (NewRedisMasterResolver sample_cfg)"

definition good_world :: world where
  "good_world = \<lparr>
     wMaster = (\<lambda>_ _. Inr [''redis-0'', ''6379'']),
     wReplicas = (\<lambda>_ _. Inr [[''ip'' \<mapsto> ''redis-1'', ''port'' \<mapsto> ''6379'', ''flags'' \<mapsto> ''slave'']]),
     wResolve = (\<lambda>hp. Inr \<lparr>aIP = (if hp = ''redis-0:6379'' then ''10.0.0.1'' else ''10.0.0.2''), aZone = [], aPort = 7\<rparr>),
     wRole = (\<lambda>opt. Inr [VString (if oAddr opt = ''10.0.0.1:7'' then ''master'' else ''slave'')]),
     wNow = 5, wPTR = (\<lambda>_. (None, 5))\<rparr>"

definition down_world :: world where
  "down_world = good_world\<lparr>wMaster := (\<lambda>_ _. Inl (RedisErr ''down''))\<rparr>"

definition placeholder_world :: world where
  "placeholder_world = good_world\<lparr>wMaster := (\<lambda>_ _. Inr [''0.0.0.0'', ''6379''])\<rparr>"

lemma sample_new: "NewRedisMasterResolver sample_cfg = Inr sample_resolver"
  by (simp add: sample_resolver_def NewRedisMasterResolver_def sample_cfg_def Default_def deref_def zero_config_def Let_def)

lemma sample_fields [simp]:
  "retryOnMasterResolveFail sample_resolver = 3" "trackReplicas sample_resolver"
  "masterAddr sample_resolver = []" "replicaAddrs sample_resolver = []" "replicaNames sample_resolver = []"
  "\<not> initialDone sample_resolver" "lastRefresh sample_resolver = None" "replicaIdx sample_resolver = 0"
  by (simp_all add: sample_resolver_def NewRedisMasterResolver_def sample_cfg_def Default_def deref_def zero_config_def)

lemma sample_usable:
  "usableTCPAddr good_world ''redis-0'' ''6379'' = Inr \<lparr>aIP = ''10.0.0.1'', aZone = [], aPort = 7\<rparr>"
  "usableTCPAddr good_world ''redis-1'' ''6379'' = Inr \<lparr>aIP = ''10.0.0.2'', aZone = [], aPort = 7\<rparr>"
  "usableTCPAddr placeholder_world ''0.0.0.0'' ''6379'' = Inl (PlaceholderHost ''0.0.0.0'')"
  using unspecified_spellings(1)
  by (auto simp: usableTCPAddr_def ip_eval good_world_def placeholder_world_def JoinHostPort_def Atoi_def ParseInt_def
      parseUint_def maxUint64_def)

lemma sample_addr [simp]:
  "TCPAddr_String \<lparr>aIP = ''10.0.0.1'', aZone = [], aPort = 7\<rparr> = ''10.0.0.1:7''"
  "TCPAddr_String \<lparr>aIP = ''10.0.0.2'', aZone = [], aPort = 7\<rparr> = ''10.0.0.2:7''"
  by (simp_all add: TCPAddr_String_def JoinHostPort_def itoa.simps [of 7] digit_char_def char_of_eq_iff take_bit_nat_def)

lemma sample_verdicts [simp]:
  "master_verdict good_world r = Inr ''10.0.0.1:7''"
  "master_verdict down_world r = Inl (FromSentinel (RedisErr ''down''))"
  "master_verdict placeholder_world r = Inl (PlaceholderHost ''0.0.0.0'')"
proof -
  have "wMaster good_world = (\<lambda>_ _. Inr [''redis-0'', ''6379''])" by (simp add: good_world_def)
  moreover have "checkRole good_world r \<lparr>aIP = ''10.0.0.1'', aZone = [], aPort = 7\<rparr> ''master'' = None"
    by (simp add: checkRole_def good_world_def clientOptions_def)
  ultimately show "master_verdict good_world r = Inr ''10.0.0.1:7''"
    by (simp add: master_verdict_def resolveMasterAddress_def sample_usable split: prod.splits)
  show "master_verdict down_world r = Inl (FromSentinel (RedisErr ''down''))"
    by (simp add: master_verdict_def resolveMasterAddress_def down_world_def)
  have "wMaster placeholder_world = (\<lambda>_ _. Inr [''0.0.0.0'', ''6379''])" by (simp add: placeholder_world_def)
  then show "master_verdict placeholder_world r = Inl (PlaceholderHost ''0.0.0.0'')"
    by (simp add: master_verdict_def resolveMasterAddress_def sample_usable)
qed

lemma sample_replicas [simp]: "usable_replicas good_world r = [''10.0.0.2:7'']"
proof -
  define fs where "fs = [''ip'' \<mapsto> ''redis-1'', ''port'' \<mapsto> ''6379'', ''flags'' \<mapsto> ''slave'']"
  have "field fs ''ip'' = ''redis-1''" "field fs ''port'' = ''6379''" "field fs ''flags'' = ''slave''"
    "\<not> linkDown fs"
    by (simp_all add: fs_def field_def linkDown_def)
  moreover have "\<not> flaggedDown fs"
    using \<open>field fs ''flags'' = ''slave''\<close> by (simp add: flaggedDown_def HasPrefix_def)
  moreover have "checkRole good_world r \<lparr>aIP = ''10.0.0.2'', aZone = [], aPort = 7\<rparr> ''slave'' = None"
    by (simp add: checkRole_def good_world_def clientOptions_def)
  ultimately have "replica_address good_world r fs = Some ''10.0.0.2:7''"
    by (simp add: replica_address_def sample_usable)
  moreover have "wReplicas good_world = (\<lambda>_ _. Inr [fs])" by (simp add: good_world_def fs_def)
  ultimately show ?thesis by (simp add: usable_replicas_def map_filter_simps)
qed

section \<open>Properties\<close>

text \<open>
  C8. One attempt, on every branch. It succeeds exactly when sentinel names one host and
  port, the host is not the 0.0.0.0/:: placeholder, the port is in range, the name resolves
  and the node answers \<open>ROLE\<close> with master. Then that node is the served master, and with
  replica tracking the served replicas are exactly the usable ones that sentinel lists
  (none, when the list cannot be had), in order. Otherwise both stay as they were. In no
  case does the attempt touch the configuration, the round robin index or the throttle.
\<close>

theorem updateMasterAddress_exact:
  "case updateMasterAddress w r of (e, r') \<Rightarrow>
     (e = None \<longleftrightarrow> (\<exists>addr. master_found w r addr)) \<and>
     (\<forall>addr. master_found w r addr \<longrightarrow> masterAddr r' = addr \<and>
        (if trackReplicas r
         then sorted (replicaAddrs r') \<and> mset (replicaAddrs r') =
           (case wReplicas w (sentinel r) (masterName r) of Inl _ \<Rightarrow> {#}
            | Inr fss \<Rightarrow> image_mset the (mset (filter (\<lambda>x. x \<noteq> None) (map (replica_address w r) fss))))
         else replicaAddrs r' = replicaAddrs r)) \<and>
     (e \<noteq> None \<longrightarrow> masterAddr r' = masterAddr r \<and> replicaAddrs r' = replicaAddrs r) \<and>
     (\<forall>fs addr. replica_address w r fs = Some addr \<longleftrightarrow> replica_found w r fs addr) \<and>
     fixed_part r' = fixed_part r"
proof (cases "updateMasterAddress w r")
  case (Pair e r')
  have m: "mset (usable_replicas w r) = (case wReplicas w (sentinel r) (masterName r) of Inl _ \<Rightarrow> {#}
      | Inr fss \<Rightarrow> image_mset the (mset (filter (\<lambda>x. x \<noteq> None) (map (replica_address w r) fss))))"
    by (cases "wReplicas w (sentinel r) (masterName r)")
      (simp_all add: usable_replicas_def map_filter_def filter_map o_def flip: mset_map)
  show ?thesis
    using updateMasterAddress_serves [OF Pair] Pair m
    by (cases "master_verdict w r")
      (auto simp: master_found_iff replica_found_iff serve_def served_def)
qed

theorem updateMasterAddress_exact_witness:
  "master_found good_world sample_resolver ''10.0.0.1:7'' \<and>
   (case updateMasterAddress good_world sample_resolver of (e, r') \<Rightarrow> masterAddr r' = ''10.0.0.1:7'')"
  using updateMasterAddress_exact [of good_world sample_resolver] by (auto simp: master_found_iff)

text \<open>
  C7. Every address ever served has been checked. In whatever order the loops, the
  refreshes of the proxy and the picks of clients run: a served master was named by
  sentinel, is not the placeholder and answered \<open>ROLE\<close> with master under the configured
  credentials; every served replica was listed as healthy and answered with slave; the
  replicas are sorted and their display names are aligned with them; without replica
  tracking there are none.
\<close>

theorem resolver_serves_verified:
  assumes "NewRedisMasterResolver cfg = Inr r0" "reaches r0 as r"
  shows "(masterAddr r \<noteq> [] \<longrightarrow> (\<exists>w\<in>action_worlds as. verified_master w r0 (masterAddr r))) \<and>
    (\<forall>a\<in>set (replicaAddrs r). \<exists>w\<in>action_worlds as. verified_replica w r0 a) \<and>
    sorted (replicaAddrs r) \<and> length (replicaNames r) = length (replicaAddrs r) \<and>
    (\<not> trackReplicas r0 \<longrightarrow> replicaAddrs r = [])"
proof -
  have "serves_verified r0 {} r0" using New_fresh [OF assms(1)] by (simp add: serves_verified_def)
  from reaches_serves_verified [OF assms(2) this] show ?thesis by (simp add: serves_verified_def)
qed

theorem resolver_serves_verified_witness:
  "\<exists>r. reaches sample_resolver [Attempt good_world] r \<and> masterAddr r = ''10.0.0.1:7'' \<and>
     verified_master good_world sample_resolver ''10.0.0.1:7'' \<and>
     verified_replica good_world sample_resolver ''10.0.0.2:7''"
proof -
  obtain e r where u: "updateMasterAddress good_world sample_resolver = (e, r)"
    by (cases "updateMasterAddress good_world sample_resolver")
  then have "masterAddr r = ''10.0.0.1:7''" "replicaAddrs r = [''10.0.0.2:7'']"
    using updateMasterAddress_serves(2) [OF u] by (simp_all add: served_def serve_def)
  with resolver_serves_verified [OF sample_new reaches_attempt [OF u]] reaches_attempt [OF u]
  show ?thesis by (intro exI [of _ r]) simp
qed

text \<open>
  C29. Round robin: with \<open>n\<close> replicas, \<open>n\<close> calls of \<open>ReplicaAddress\<close> in a row return every
  replica exactly once, from any position of the 64-bit counter that leaves room for the
  calls; and no call ever indexes out of range, also when the counter wraps around.
\<close>

theorem ReplicaAddress_round_robin:
  assumes "initialDone r" "replicaAddrs r \<noteq> []" "length (replicaAddrs r) < 2 ^ 64"
  shows "(\<exists>a\<in>set (replicaAddrs r). fst (ReplicaAddress r) = Some (a, True)) \<and>
    (unat (replicaIdx r) + length (replicaAddrs r) \<le> 2 ^ 64 \<longrightarrow>
       mset (picks (length (replicaAddrs r)) r) = mset (map (\<lambda>a. Some (a, True)) (replicaAddrs r)))"
proof
  show "\<exists>a\<in>set (replicaAddrs r). fst (ReplicaAddress r) = Some (a, True)"
    using assms by (simp add: ReplicaAddress_pick)
  show "unat (replicaIdx r) + length (replicaAddrs r) \<le> 2 ^ 64 \<longrightarrow>
      mset (picks (length (replicaAddrs r)) r) = mset (map (\<lambda>a. Some (a, True)) (replicaAddrs r))"
  proof
    assume "unat (replicaIdx r) + length (replicaAddrs r) \<le> 2 ^ 64"
    from picks_nth [OF assms this]
    have "picks (length (replicaAddrs r)) r = map (\<lambda>a. Some (a, True))
        (map (\<lambda>k. replicaAddrs r ! (k mod length (replicaAddrs r)))
          [unat (replicaIdx r)..<unat (replicaIdx r) + length (replicaAddrs r)])" by simp
    then have "mset (picks (length (replicaAddrs r)) r) = image_mset (\<lambda>a. Some (a, True))
        (mset (map (\<lambda>k. replicaAddrs r ! (k mod length (replicaAddrs r)))
          [unat (replicaIdx r)..<unat (replicaIdx r) + length (replicaAddrs r)]))" by (metis mset_map)
    then show "mset (picks (length (replicaAddrs r)) r) = mset (map (\<lambda>a. Some (a, True)) (replicaAddrs r))"
      unfolding mset_cycle [OF assms(2)] by (metis mset_map)
  qed
qed

theorem ReplicaAddress_round_robin_witness:
  "mset (picks (length [''a:1'', ''b:2'']) (sample_resolver\<lparr>initialDone := True, replicaAddrs := [''a:1'', ''b:2''], replicaIdx := 7\<rparr>)) =
     {#Some (''a:1'', True), Some (''b:2'', True)#}"
  using ReplicaAddress_round_robin [of "sample_resolver\<lparr>initialDone := True, replicaAddrs := [''a:1'', ''b:2''], replicaIdx := 7\<rparr>"]
  by simp

text \<open>
  C19. The initial resolve, as long as it is not cancelled: a success ends it at once; a
  sentinel that is not ready is waited out for ever and costs nothing; of the other failures
  the budget allows \<open>retryOnMasterResolveFail\<close>, and the next one ends it with its error
  (the first one, when the configured number is zero or negative).
\<close>

theorem initial_resolve_outcome:
  assumes "CtxDone \<notin> set evs"
  shows "lrOutcome (initialMasterAddressResolve r w evs) =
    (let fs = takeWhile (fails r) (w # fired evs);
         hs = hard_errors r fs;
         k = nat (retryOnMasterResolveFail r)
     in if k < length hs then Returned (Some (hs ! k))
        else if length fs < length (w # fired evs) then Returned None
        else Waiting)"
proof -
  have "lrOutcome (initialMasterAddressResolve r w evs) = lrOutcome (initialMasterAddressResolve_loop 0 r w evs)"
    by (simp add: initialMasterAddressResolve_def Let_def split: outcome.splits)
  also have "\<dots> = initial_outcome (nat (retryOnMasterResolveFail r)) r (w # fired evs)"
    using initial_loop_outcome [OF assms, of 0 r w] by simp
  finally show ?thesis by (simp only: initial_outcome_def Let_def)
qed

theorem initial_resolve_outcome_witness:
  "lrOutcome (initialMasterAddressResolve sample_resolver down_world
     [Fired down_world, Fired placeholder_world, Fired down_world, Fired placeholder_world, Fired down_world]) =
     Returned (Some (FromSentinel (RedisErr ''down''))) \<and>
   lrOutcome (initialMasterAddressResolve sample_resolver down_world
     [Fired down_world, Fired placeholder_world, Fired down_world, Fired good_world]) = Returned None"
  using initial_resolve_outcome [of "[Fired down_world, Fired placeholder_world, Fired down_world, Fired placeholder_world, Fired down_world]"
      sample_resolver down_world]
    initial_resolve_outcome [of "[Fired down_world, Fired placeholder_world, Fired down_world, Fired good_world]"
      sample_resolver down_world]
  by (simp add: fails_def Let_def numeral_3_eq_3)

text \<open>
  Clients that waited for the initial resolve are let go when it returns, and what they
  get is sound: after a success \<open>MasterAddress\<close> returns an address, and in every case what
  it returns is empty or was verified in one of the attempts.
\<close>

theorem initial_resolve_serves:
  assumes "NewRedisMasterResolver cfg = Inr r" "lrOutcome (initialMasterAddressResolve r w evs) = Returned x"
  shows "\<exists>addr. MasterAddress (lrResolver (initialMasterAddressResolve r w evs)) = Some addr \<and>
    (x = None \<longrightarrow> addr \<noteq> []) \<and>
    (addr = [] \<or> (\<exists>w'\<in>set (w # fired evs). verified_master w' r addr))"
proof -
  let ?res = "initialMasterAddressResolve r w evs"
  let ?loop = "initialMasterAddressResolve_loop 0 r w evs"
  have o: "lrOutcome ?loop = Returned x" and res: "lrResolver ?res = (lrResolver ?loop)\<lparr>initialDone := True\<rparr>"
    using assms(2) by (auto simp: initialMasterAddressResolve_def Let_def split: outcome.splits)
  have "x = None \<Longrightarrow> masterAddr (lrResolver ?loop) \<noteq> []"
    using initial_loop_nonempty [of 0 r w evs] o by simp
  moreover obtain as where "action_worlds as \<subseteq> set (w # fired evs)" "reaches r as (lrResolver ?res)"
    using initial_reaches by blast
  moreover have "serves_verified r {} r" using New_fresh [OF assms(1)] by (simp add: serves_verified_def)
  ultimately show ?thesis
    using reaches_serves_verified [of r as "lrResolver ?res"] res
    by (auto simp: MasterAddress_def serves_verified_def)
qed

theorem initial_resolve_serves_witness:
  "\<exists>addr. MasterAddress (lrResolver (initialMasterAddressResolve sample_resolver down_world [Fired good_world])) = Some addr \<and>
     addr \<noteq> []"
proof -
  have "lrOutcome (initialMasterAddressResolve sample_resolver down_world [Fired good_world]) = Returned None"
    using initial_loop_outcome [of "[Fired good_world]" 0 sample_resolver down_world]
    by (simp add: initialMasterAddressResolve_def initial_outcome_def fails_def Let_def)
  from initial_resolve_serves [OF sample_new this] show ?thesis by blast
qed

text \<open>
  C20. The update loop returns for two reasons only. It returns nil when its context is
  cancelled; it returns an error after one more failure than \<open>retryOnMasterResolveFail\<close>
  within a run of attempts without a success, not counting a sentinel that is not ready,
  and the error is that of the last of these failures.
\<close>

theorem update_loop_retry_budget:
  assumes "lrOutcome (update_loop 0 None r evs) = Returned x" "0 \<le> retryOnMasterResolveFail r"
  shows "case x of
      None \<Rightarrow> CtxDone \<in> set evs
    | Some e \<Rightarrow> \<exists>pre run rest. attempts r evs = pre @ run @ rest \<and> (\<forall>w\<in>set run. fails r w) \<and>
        int (length (hard_errors r run)) = retryOnMasterResolveFail r + 1 \<and> last (hard_errors r run) = e"
  using update_loop_exhausted [OF assms(1) assms(2) assms(2)] by (auto simp: exhausted_def split: option.splits)

theorem update_loop_retry_budget_witness:
  "\<exists>evs e. lrOutcome (update_loop 0 None sample_resolver evs) = Returned (Some e) \<and>
     (\<exists>pre run rest. attempts sample_resolver evs = pre @ run @ rest \<and>
        length (hard_errors sample_resolver run) = 4)"
proof -
  let ?ws = "[down_world, placeholder_world, down_world, down_world, down_world]"
  let ?evs = "concat (map (\<lambda>w. [Fired w, Fired w]) ?ws)"
  obtain e where e: "lrOutcome (update_loop 0 None sample_resolver ?evs) = Returned (Some e)"
    using update_loop_spent [of ?ws sample_resolver 0 None] by (auto simp: fails_def)
  from update_loop_retry_budget [OF this] obtain pre run rest where
    "attempts sample_resolver ?evs = pre @ run @ rest" "int (length (hard_errors sample_resolver run)) = 4"
    by auto
  with e show ?thesis by (metis of_nat_eq_iff of_nat_numeral)
qed

text \<open>
  C30. The update loop does end: when attempts fail one after the other, with each wait
  elapsing, and more of the failures than the budget are not of the kind that is waited
  out, it returns an error.
\<close>

theorem update_loop_gives_up:
  assumes "\<forall>w\<in>set ws. fails r w" "0 \<le> retryOnMasterResolveFail r"
    "retryOnMasterResolveFail r < int (length (hard_errors r ws))"
  shows "\<exists>e. lrOutcome (update_loop 0 None r (concat (map (\<lambda>w. [Fired w, Fired w]) ws))) = Returned (Some e)"
  using update_loop_spent [OF assms(1), of 0] assms(2,3) by simp

theorem update_loop_gives_up_witness:
  "\<exists>e. lrOutcome (update_loop 0 None sample_resolver
      (concat (map (\<lambda>w. [Fired w, Fired w]) [down_world, placeholder_world, down_world, down_world, down_world]))) =
    Returned (Some e)"
  by (rule update_loop_gives_up) (simp_all add: fails_def)

text \<open>
  With a negative \<open>-resolve-retries\<close> the update loop is not entered: after a successful
  initial resolve \<open>UpdateMasterAddressLoop\<close> returns nil at once, whatever would happen
  afterwards, and the sentinel client is closed.
\<close>

theorem negative_retries_stop_updates:
  assumes "retryOnMasterResolveFail r < 0" "lrOutcome (initialMasterAddressResolve r w evs1) = Returned None"
  shows "lrOutcome (UpdateMasterAddressLoop r w evs1 evs2) = Returned None \<and>
    lrResolver (UpdateMasterAddressLoop r w evs1 evs2) = closeSentinel (lrResolver (initialMasterAddressResolve r w evs1))"
proof -
  obtain as where "reaches r as (lrResolver (initialMasterAddressResolve r w evs1))"
    using initial_reaches by blast
  then have "retryOnMasterResolveFail (lrResolver (initialMasterAddressResolve r w evs1)) < 0"
    using configured_reaches assms(1) by (fastforce simp: configured_def)
  then show ?thesis
    using assms(2) by (simp add: UpdateMasterAddressLoop_def Let_def update_loop_over)
qed

theorem negative_retries_stop_updates_witness:
  "lrOutcome (UpdateMasterAddressLoop (sample_resolver\<lparr>retryOnMasterResolveFail := - 1\<rparr>) good_world []
     [Fired down_world, Fired down_world]) = Returned None"
proof -
  have "lrOutcome (initialMasterAddressResolve (sample_resolver\<lparr>retryOnMasterResolveFail := - 1\<rparr>) good_world []) = Returned None"
    using initial_loop_outcome [of "[]" 0 "sample_resolver\<lparr>retryOnMasterResolveFail := - 1\<rparr>" good_world]
    by (simp add: initialMasterAddressResolve_def initial_outcome_def fails_def Let_def)
  then show ?thesis
    using negative_retries_stop_updates [of "sample_resolver\<lparr>retryOnMasterResolveFail := - 1\<rparr>"] by simp
qed

text \<open>
  C39. The progressive backoff: the shift with its early exits is the doubling of one second,
  cut off at thirty, for every count of failures; so a wait between attempts is between one
  and thirty seconds, and it never gets shorter as failures add up.
\<close>

theorem ResolveFailureBackoff_doubles:
  "ResolveFailureBackoff n = min (2 ^ nat (n - 1) * Second) (30 * Second) \<and>
   Second \<le> ResolveFailureBackoff n \<and> ResolveFailureBackoff n \<le> 30 * Second \<and>
   (m \<le> n \<longrightarrow> ResolveFailureBackoff m \<le> ResolveFailureBackoff n)"
proof -
  have eq: "ResolveFailureBackoff k = min (2 ^ nat (k - 1) * Second) (30 * Second)" for k
  proof (cases "5 < k")
    case True
    then have "(2::int) ^ 5 \<le> 2 ^ nat (k - 1)" by (intro power_increasing) simp_all
    with True show ?thesis
      by (simp add: ResolveFailureBackoff_def resolveFailureBackoffCap_def Second_def)
  next
    case False
    then show ?thesis
      by (simp add: ResolveFailureBackoff_def resolveFailureBackoffCap_def Second_def push_bit_eq_mult mult.commute)
  qed
  have mono: "m \<le> n \<Longrightarrow> ResolveFailureBackoff m \<le> ResolveFailureBackoff n"
    unfolding eq by (intro min.mono mult_right_mono power_increasing) (simp_all add: Second_def)
  show ?thesis
    using mono unfolding eq by (auto simp: Second_def min_def)
qed

theorem ResolveFailureBackoff_doubles_witness:
  "ResolveFailureBackoff 3 = 4000000000 \<and> ResolveFailureBackoff 3 \<le> ResolveFailureBackoff 9"
  using ResolveFailureBackoff_doubles [of 9 3] ResolveFailureBackoff_doubles [of 3 3]
  by (simp add: Second_def)

text \<open>
  C31. Refreshes are throttled, every time anew: a refresh more than a second after the last one
  is an attempt, which serves what the sentinel and the nodes say then; and from its time on every
  refresh within the next second leaves the resolver as it is, whatever loops, picks and
  other throttled refreshes happened in between. Before the initial resolve is over a refresh
  does nothing.
\<close>

theorem RefreshAddresses_throttled:
  assumes "initialDone r" "\<forall>t. lastRefresh r = Some t \<longrightarrow> Second \<le> wNow w1 - t"
    "reaches (RefreshAddresses w1 r) as r2" "\<forall>w. Refresh w \<in> set as \<longrightarrow> wNow w - wNow w1 < Second"
    "wNow w2 - wNow w1 < Second"
  shows "served (RefreshAddresses w1 r) = serve r w1 (served r) \<and> RefreshAddresses w2 r2 = r2 \<and>
    (\<forall>w r0. \<not> initialDone r0 \<longrightarrow> RefreshAddresses w r0 = r0)"
proof -
  have sec: "refreshThrottle = Second" by (simp add: refreshThrottle_def)
  note at = RefreshAddresses_attempt [OF assms(1), of w1, unfolded sec, OF assms(2)]
  have "lastRefresh r2 = Some (wNow w1)" using lastRefresh_reaches [OF assms(3) at(1)] assms(4) by (simp add: sec)
  with assms(5) have "RefreshAddresses w2 r2 = r2" by (intro RefreshAddresses_frozen) (simp_all add: sec)
  with at(2) show ?thesis by (simp add: RefreshAddresses_def)
qed

theorem RefreshAddresses_throttled_witness:
  "RefreshAddresses (good_world\<lparr>wNow := Second + 1\<rparr>)
     (RefreshAddresses (good_world\<lparr>wNow := Second\<rparr>) (sample_resolver\<lparr>initialDone := True, lastRefresh := Some 0\<rparr>)) =
   RefreshAddresses (good_world\<lparr>wNow := Second\<rparr>) (sample_resolver\<lparr>initialDone := True, lastRefresh := Some 0\<rparr>)"
  using RefreshAddresses_throttled [of "sample_resolver\<lparr>initialDone := True, lastRefresh := Some 0\<rparr>" "good_world\<lparr>wNow := Second\<rparr>" "[]" _
      "good_world\<lparr>wNow := Second + 1\<rparr>", OF _ _ reaches.start]
  by (simp add: Second_def)

end
