(* ===== verification/Proxying.thy ===== *)
theory Proxying
  imports Proxy Resolving
begin

text \<open>
  What \<open>pkg/proxy\<close> promises its clients: which nodes they are connected to, what happens when
  a backend is gone, how sessions begin and end, the connection limit and the idle clock; and
  what \<open>main.go\<close> makes of it together with the configuration and the resolver.
\<close>

section \<open>Definitions\<close>

text \<open>
  The start of \<open>runProxying\<close> (\<open>main.go\<close>): a resolver and a proxy that uses it, or an error;
  a nil dereference in the resolver's constructor is \<open>NilPointer\<close> too.
\<close>

definition startProxying ::
  "(string \<Rightarrow> tcpAddr option) \<Rightarrow> config \<Rightarrow> proxy_error + (resolver \<times> resolver proxy)" where
  "startProxying resolve cfg =
     bindR (case NewRedisMasterResolver cfg of Inl _ \<Rightarrow> Inl NilPointer | Inr r \<Rightarrow> Inr r) (\<lambda>r.
     bindR (NewRedisSentinelProxy resolve cfg resolver_methods) (\<lambda>p. Inr (r, p)))"

section \<open>Facts\<close>

lemma startProxying_parts:
  assumes "startProxying resolve cfg = Inr (r, p)"
  shows "NewRedisMasterResolver cfg = Inr r" "NewRedisSentinelProxy resolve cfg resolver_methods = Inr p"
  using assms by (auto simp: startProxying_def bindR_Inr_iff split: sum.splits)

lemma New_proxy_wired:
  "NewRedisSentinelProxy resolve cfg resolver_methods = Inr p \<Longrightarrow> sentinel_resolver.wired p"
  using New_proxy_fields(1-3) [of resolve cfg resolver_methods p] by (simp add: sentinel_resolver.wired_def)

lemma New_proxy_methods:
  assumes "NewRedisSentinelProxy resolve cfg resolver_methods = Inr p"
  shows "masterResolver p = MasterAddress" "refresher p = Some RefreshAddresses"
    "replicaAddr p \<noteq> None \<or> router p \<Longrightarrow> replicaResolver p = Some ReplicaAddress"
  using New_proxy_fields(1,2,3,5,6) [OF assms] by (auto simp: resolver_methods_def)

lemma New_proxy_fallback:
  assumes "NewRedisSentinelProxy resolve cfg m = Inr p" "strSet (ReplicaListen cfg)"
  shows "replicaFallbackMaster p \<longleftrightarrow> ReplicaFallback cfg = Some ReplicaFallbackMaster"
proof -
  from assms(1) obtain p0 p1 p2 where s: "proxyFields cfg m = Inr p0" "masterEndpoint resolve cfg p0 = Inr p1"
    "replicaEndpoint resolve cfg m p1 = Inr p2" "routerMode cfg m p2 = Inr p"
    by (auto simp: NewRedisSentinelProxy_def bindR_Inr_iff split: if_splits)
  have "replicaFallbackMaster p = replicaFallbackMaster p2"
    using s(4) by (auto simp: routerMode_def split: if_splits option.splits)
  moreover have "replicaFallbackMaster p2 \<longleftrightarrow> ReplicaFallback cfg = Some ReplicaFallbackMaster"
    using s(3) assms(2) by (auto simp: replicaEndpoint_def derefP_def split: option.splits)
  ultimately show ?thesis by simp
qed

text \<open>The errors of the steps of the constructor.\<close>

lemma masterEndpoint_error:
  "masterEndpoint resolve cfg p = Inl e \<Longrightarrow> e = ResolvingListen \<and> resolve (the (Listen cfg)) = None"
  by (auto simp: masterEndpoint_def split: if_splits option.splits)

lemma replicaEndpoint_error:
  "replicaEndpoint resolve cfg resolver_methods p = Inl e \<Longrightarrow> strSet (ReplicaListen cfg) \<longrightarrow> ReplicaFallback cfg \<noteq> None \<Longrightarrow>
     e = ResolvingReplicaListen \<and> resolve (the (ReplicaListen cfg)) = None"
  by (auto simp: replicaEndpoint_def derefP_def resolver_methods_def split: if_splits option.splits)

lemma routerMode_error:
  "routerMode cfg resolver_methods p = Inl e \<Longrightarrow>
     e = RouterNeedsListen \<and> localAddr p = None \<and> RouterMode cfg = Some True"
  by (auto simp: routerMode_def resolver_methods_def split: if_splits)

lemma NewRedisSentinelProxy_error:
  assumes "NewRedisSentinelProxy resolve cfg resolver_methods = Inl e"
    "MaxConnections cfg \<noteq> None" "IdleTimeout cfg \<noteq> None" "Debug cfg \<noteq> None"
    "strSet (Listen cfg) \<or> strSet (ReplicaListen cfg)" "strSet (ReplicaListen cfg) \<longrightarrow> ReplicaFallback cfg \<noteq> None"
  shows "e = ResolvingListen \<and> resolve (the (Listen cfg)) = None \<or>
    e = ResolvingReplicaListen \<and> resolve (the (ReplicaListen cfg)) = None \<or>
    e = RouterNeedsListen \<and> \<not> strSet (Listen cfg) \<and> RouterMode cfg = Some True"
proof -
  obtain p0 where p0: "proxyFields cfg resolver_methods = Inr p0" "localAddr p0 = None" "replicaAddr p0 = None"
    "replicaResolver p0 = None" "\<not> replicaFallbackMaster p0"
    using assms(2-4) by (auto simp: proxyFields_def derefP_def)
  show ?thesis
  proof (cases "masterEndpoint resolve cfg p0")
    case (Inl x)
    with assms(1) p0(1) masterEndpoint_error [OF Inl] show ?thesis by (simp add: NewRedisSentinelProxy_def)
  next
    case (Inr p1)
    obtain la where p1: "p1 = p0\<lparr>localAddr := la\<rparr>" "(la \<noteq> None) = strSet (Listen cfg)"
      using masterEndpoint_ok [OF Inr p0(2)] .
    show ?thesis
    proof (cases "replicaEndpoint resolve cfg resolver_methods p1")
      case (Inl x)
      with assms(1) p0(1) Inr replicaEndpoint_error [OF Inl assms(6)] show ?thesis
        by (simp add: NewRedisSentinelProxy_def)
    next
      case p2: (Inr p2)
      have r1: "replicaAddr p1 = None" "replicaResolver p1 = None" "\<not> replicaFallbackMaster p1"
        using p0 p1 by simp_all
      have l2: "localAddr p2 = la" "(replicaAddr p2 \<noteq> None) = strSet (ReplicaListen cfg)"
        by (rule replicaEndpoint_ok [OF p2 r1]; use p1 p0(3) in simp)+
      then have "\<not> (localAddr p2 = None \<and> replicaAddr p2 = None)" using assms(5) p1(2) by blast
      then have "routerMode cfg resolver_methods p2 = Inl e"
        using assms(1) p0(1) Inr p2 by (auto simp: NewRedisSentinelProxy_def split: if_splits)
      from routerMode_error [OF this] l2 p1(2) show ?thesis by blast
    qed
  qed
qed

lemma loaded_start_error:
  assumes "LoadCfg h flagCfg path = Inr cfg" "startProxying resolve cfg = Inl e"
  shows "e = ResolvingListen \<and> resolve (the (Listen cfg)) = None \<or>
      e = ResolvingReplicaListen \<and> resolve (the (ReplicaListen cfg)) = None \<or>
      e = RouterNeedsListen \<and> \<not> strSet (Listen cfg) \<and> RouterMode cfg = Some True"
proof -
  note ok = LoadCfg_ok [OF assms(1)]
  obtain r where "NewRedisMasterResolver cfg = Inr r"
    using ok by (auto simp: NewRedisMasterResolver_def Let_def deref_def)
  with assms(2) have "NewRedisSentinelProxy resolve cfg resolver_methods = Inl e"
    by (cases "NewRedisSentinelProxy resolve cfg resolver_methods") (auto simp: startProxying_def)
  from NewRedisSentinelProxy_error [OF this] ok show ?thesis by auto
qed

lemma dialReplica_untracked:
  assumes "replicaResolver p = Some ReplicaAddress" "refresher p = Some RefreshAddresses"
    "replicaAddrs s = []" "replicaAddrs (RefreshAddresses w s) = []"
  shows "\<exists>z s'. dialReplicaForRouting p w n s = (z, s', []) \<and> (z = None \<or> z = Some (Inr None))"
  using assms
  by (cases "initialDone s"; cases "initialDone (RefreshAddresses w s)")
    (simp_all add: dialReplicaForRouting_def Let_def ReplicaAddress_def)

subsection \<open>A proxy to evaluate\<close>

definition both_cfg :: config where
  "both_cfg = sample_cfg\<lparr>Listen := Some '':10000''\<rparr>"

definition sample_resolve :: "string \<Rightarrow> tcpAddr option" where
  "sample_resolve s = Some \<lparr>aIP = [], aZone = [], aPort = length s\<rparr>"

definition sample_proxy :: "resolver proxy" where
  "sample_proxy = projr (NewRedisSentinelProxy sample_resolve both_cfg resolver_methods)"

definition one_read :: "bytes \<Rightarrow> read_round" where
  "one_read b = \<lparr>rrDeadline = None, rrBytes = b, rrErr = None, rrNow = 0, rrActivity = 0\<rparr>"

lemma one_read_delivered: "delivered timeout [one_read b] = b"
  by (simp add: one_read_def delivered_Cons read_bytes_def read_over_def delivered_def)

definition up_net :: network where
  "up_net = \<lparr>nDial = (\<lambda>a t. Inr (new_conn, [one_read ''+hi''])), nDialTLS = (\<lambda>_ _ _. Inl ErrClosed)\<rparr>"

definition down_net :: network where
  "down_net = \<lparr>nDial = (\<lambda>a t. Inl ErrClosed), nDialTLS = (\<lambda>_ _ _. Inl ErrClosed)\<rparr>"

definition sample_client :: incoming where
  "sample_client = \<lparr>inConn = new_conn, inReads = [one_read ''PING''], inHandshake = None\<rparr>"

definition resolved :: resolver where
  "resolved = act CloseInitial (act (Attempt good_world) sample_resolver)"

lemma both_new: "NewRedisMasterResolver both_cfg = Inr sample_resolver"
  using sample_new by (simp add: NewRedisMasterResolver_def both_cfg_def SentinelTLSConfig_def MasterProbeTLSConfig_def)

lemma sample_proxy_new: "NewRedisSentinelProxy sample_resolve both_cfg resolver_methods = Inr sample_proxy"
  by (simp add: sample_proxy_def NewRedisSentinelProxy_def proxyFields_def masterEndpoint_def replicaEndpoint_def
      routerMode_def derefP_def both_cfg_def sample_cfg_def Default_def zero_config_def strSet_def sample_resolve_def
      resolver_methods_def)

lemma sample_start: "startProxying sample_resolve both_cfg = Inr (sample_resolver, sample_proxy)"
  by (simp add: startProxying_def both_new sample_proxy_new)

lemma sample_proxy_fields [simp]:
  "masterResolver sample_proxy = MasterAddress" "refresher sample_proxy = Some RefreshAddresses"
  "replicaResolver sample_proxy = Some ReplicaAddress" "dialTLSConf sample_proxy = None"
  "replicaFallbackMaster sample_proxy" "sem sample_proxy = Some 100"
  by (simp_all add: sample_proxy_def NewRedisSentinelProxy_def proxyFields_def masterEndpoint_def replicaEndpoint_def
      routerMode_def derefP_def both_cfg_def sample_cfg_def Default_def zero_config_def strSet_def sample_resolve_def
      resolver_methods_def MasterTLSConfig_def)

lemma resolved_reaches: "reaches sample_resolver [Attempt good_world, CloseInitial] resolved"
  using reaches.step [OF reaches.step [OF reaches.start], of sample_resolver "Attempt good_world" CloseInitial]
  by (simp add: resolved_def)

lemma resolved_fields [simp]:
  "masterAddr resolved = ''10.0.0.1:7''" "replicaAddrs resolved = [''10.0.0.2:7'']" "initialDone resolved"
  "lastRefresh resolved = None"
proof -
  obtain e r where u: "updateMasterAddress good_world sample_resolver = (e, r)"
    by (cases "updateMasterAddress good_world sample_resolver")
  then show "masterAddr resolved = ''10.0.0.1:7''" "replicaAddrs resolved = [''10.0.0.2:7'']" "initialDone resolved"
    "lastRefresh resolved = None"
    using updateMasterAddress_serves(1,2) [OF u] fixed_fields(9) [of r sample_resolver]
    by (simp_all add: resolved_def served_def serve_def)
qed

lemma sample_connect:
  "connectBackend sample_proxy (pickMaster sample_proxy) up_net good_world up_net resolved =
     (Some (Inr ((new_conn, [one_read ''+hi'']), ''10.0.0.1:7'', ''master'')), resolved, [''10.0.0.1:7''])"
  by (simp add: connectBackend_def pickAndDial_def pickMaster_def MasterAddress_def dialRedis_def
      TCPConnectWithTimeout_def up_net_def)

lemma sample_piped:
  "\<exists>client' remote'. proxy_conn sample_proxy (pickMaster sample_proxy) up_net good_world up_net sample_client resolved =
     (Piped ''master'' ''10.0.0.1:7'' client' remote', resolved, [''10.0.0.1:7''])"
  unfolding proxy_conn_def sample_connect
  by (simp add: completeClientHandshake_def sample_client_def pipe_def Copy_def new_conn_def pipeReader_routed)

lemma go_good_world [simp]: "go_world good_world"
  by (simp add: go_world_def good_world_def)

text \<open>Router mode without a replica endpoint.\<close>

definition router_cfg :: config where
  "router_cfg = both_cfg\<lparr>RouterMode := Some True, ReplicaListen := None\<rparr>"

lemma router_start:
  obtains r0 p where "startProxying sample_resolve router_cfg = Inr (r0, p)" "dialTLSConf p = None"
    "replicaResolver p = Some ReplicaAddress" "refresher p = Some RefreshAddresses" "masterResolver p = MasterAddress"
    "\<not> trackReplicas r0" "NewRedisMasterResolver router_cfg = Inr r0"
proof -
  obtain r0 where r0: "NewRedisMasterResolver router_cfg = Inr r0" "\<not> trackReplicas r0"
    by (auto simp: NewRedisMasterResolver_def router_cfg_def both_cfg_def sample_cfg_def Default_def deref_def Let_def)
  obtain p where p: "NewRedisSentinelProxy sample_resolve router_cfg resolver_methods = Inr p"
    by (auto simp: NewRedisSentinelProxy_def proxyFields_def masterEndpoint_def replicaEndpoint_def
      routerMode_def derefP_def router_cfg_def both_cfg_def sample_cfg_def Default_def zero_config_def strSet_def
      sample_resolve_def resolver_methods_def)
  have "dialTLSConf p = None" using New_proxy_fields(7) [OF p]
    by (simp add: MasterTLSConfig_def router_cfg_def both_cfg_def sample_cfg_def Default_def zero_config_def)
  moreover have "router p" using New_proxy_fields(12) [OF p] by (simp add: router_cfg_def)
  ultimately show thesis
    using that [of r0 p] r0 p New_proxy_methods [OF p] by (simp add: startProxying_def)
qed

lemma router_sample:
  "\<exists>r0 p r a e t r' d. startProxying sample_resolve router_cfg = Inr (r0, p) \<and> running r0 {good_world} r \<and>
     connectBackend p (pickMaster p) up_net good_world up_net r =
       (Some (Inr ((new_conn, [one_read ''+hi'']), a, ''master'')), r, [a]) \<and>
     routedProxy (\<lambda>s. s) p up_net good_world up_net good_world up_net sample_client r = (Routed None e t, r', d)"
proof (rule router_start)
  fix r0 p
  assume p: "startProxying sample_resolve router_cfg = Inr (r0, p)" "dialTLSConf p = None"
    "replicaResolver p = Some ReplicaAddress" "refresher p = Some RefreshAddresses" "masterResolver p = MasterAddress"
    and r0: "\<not> trackReplicas r0" "NewRedisMasterResolver router_cfg = Inr r0"
  define r where "r = act CloseInitial (act (Attempt good_world) r0)"
  have "reaches r0 [Attempt good_world, CloseInitial] r"
    using reaches.step [OF reaches.step [OF reaches.start], of r0 "Attempt good_world" CloseInitial] by (simp add: r_def)
  then have run: "running r0 {good_world} r" using r0(2) by (auto simp: running_def)
  have i: "initialDone r" by (simp add: r_def)
  have k: "connectBackend p (pickMaster p) up_net good_world up_net r =
      (Some (Inr ((new_conn, [one_read ''+hi'']), masterAddr r, ''master'')), r, [masterAddr r])"
    using p i by (simp add: connectBackend_def pickAndDial_def pickMaster_def MasterAddress_def dialRedis_def
        TCPConnectWithTimeout_def up_net_def)
  have i2: "initialDone (RefreshAddresses good_world r)"
    using fixed_fields(8) [OF updateMasterAddress_serves(1)] i
    by (cases rule: RefreshAddresses_cases [of good_world r]) (auto simp: prod_eq_iff)
  have "replicaAddrs r = []" "replicaAddrs (RefreshAddresses good_world r) = []"
    using running_verified(3) [OF run r0(1)] running_verified(3) [OF running_act [OF run, of "Refresh good_world"] r0(1)]
    by simp_all
  then have dr: "dialReplicaForRouting p good_world up_net r = (Some (Inr None), RefreshAddresses good_world r, [])"
    using p i i2 by (simp add: dialReplicaForRouting_def Let_def ReplicaAddress_def)
  define sess where "sess = \<lparr>client = inConn sample_client, clientR = routedReader p (inReads sample_client), master = new_conn,
     masterR = routedReader p [one_read ''+hi''], replica = None, replicaR = \<lparr>avail = [], rerr = EOF\<rparr>,
     dropped = None, reads = 0, writes = 0\<rparr>"
  obtain e t where "run (\<lambda>s. s) sess = (e, t)" by (cases "run (\<lambda>s. s) sess")
  then have "\<exists>t' r' d. routedProxy (\<lambda>s. s) p up_net good_world up_net good_world up_net sample_client r = (Routed None e t', r', d)"
    by (simp add: routedProxy_def k dr sess_def [symmetric] completeClientHandshake_def Let_def)
      (simp add: sample_client_def)
  with p(1) run k show ?thesis by blast
qed

section \<open>Properties\<close>

text \<open>
  C2. Clients reach verified nodes only. Whatever listener a client comes in through, and
  however the resolver has been used before: every address that is dialled for it is one
  that passed the checks of an attempt (or is empty, when the initial resolve gave up, and
  cannot be dialled); on the plain master endpoint it is a node that reported to be the
  master; on the replica endpoint with policy reject it is a replica.
\<close>

theorem clients_reach_verified_nodes:
  assumes "startProxying resolve cfg = Inr (r0, p)" "running r0 W r" "w \<in> W" "w' \<in> W"
    "handle uni p l n1 w n2 w' n3 c r = (x, r', dials)"
  shows "running r0 W r' \<and>
    (\<forall>a\<in>set dials. a = [] \<or> (\<exists>v\<in>W. verified_master v r0 a \<or> verified_replica v r0 a)) \<and>
    (lnEndpoint l = MasterEndpoint \<and> \<not> lnRouted l \<longrightarrow>
       (\<forall>a\<in>set dials. a = [] \<or> (\<exists>v\<in>W. verified_master v r0 a))) \<and>
    (lnEndpoint l = ReplicaEndpoint \<and> \<not> lnRouted l \<and> ReplicaFallback cfg = Some ReplicaFallbackReject \<longrightarrow>
       (\<forall>a\<in>set dials. \<exists>v\<in>W. verified_replica v r0 a))"
proof -
  note new = startProxying_parts(2) [OF assms(1)]
  have "\<not> replicaFallbackMaster p" if "ReplicaFallback cfg = Some ReplicaFallbackReject"
    using New_proxy_fields(13) [OF new] that by (auto simp: ReplicaFallbackMaster_def ReplicaFallbackReject_def)
  with sentinel_resolver.handle_sound [OF New_proxy_wired [OF new] assms(2,3,4,5)] show ?thesis by blast
qed

theorem clients_reach_verified_nodes_witness:
  "\<exists>x r'. handle (\<lambda>s. s) sample_proxy \<lparr>lnEndpoint = MasterEndpoint, lnAddr = undefined, lnTLS = False, lnRouted = False\<rparr>
      up_net good_world up_net good_world up_net sample_client resolved = (x, r', [''10.0.0.1:7'']) \<and>
    verified_master good_world sample_resolver ''10.0.0.1:7''"
proof -
  let ?l = "\<lparr>lnEndpoint = MasterEndpoint, lnAddr = undefined, lnTLS = False, lnRouted = False\<rparr>"
  have "running sample_resolver {good_world} resolved"
    using sample_new resolved_reaches by (auto simp: running_def)
  moreover obtain x r' where h: "handle (\<lambda>s. s) sample_proxy ?l
      up_net good_world up_net good_world up_net sample_client resolved = (x, r', [''10.0.0.1:7''])"
    using sample_piped by (auto simp: handle_def)
  ultimately show ?thesis
    using clients_reach_verified_nodes [OF sample_start _ _ _ h, of "{good_world}"] h by auto
qed

text \<open>
  C10. Failover: when the known master cannot be reached, the client's connection is not
  lost. The proxy resolves again and, when sentinel now names a node that answers as the
  master, connects the client to that node, which is the served master from then on.
\<close>

theorem failover_reconnects:
  assumes "NewRedisSentinelProxy resolve cfg resolver_methods = Inr p"
    "initialDone r" "dialRedis p n1 (masterAddr r) = Inl e"
    "\<forall>t. lastRefresh r = Some t \<longrightarrow> refreshThrottle \<le> wNow w - t"
    "master_found w r addr" "dialRedis p n2 addr = Inr remote"
  shows "\<exists>r'. connectBackend p (pickMaster p) n1 w n2 r =
      (Some (Inr (remote, addr, ''master'')), r', [masterAddr r, addr]) \<and> MasterAddress r' = Some addr"
proof -
  define r1 where "r1 = r\<lparr>lastRefresh := Some (wNow w)\<rparr>"
  obtain x r2 where u: "updateMasterAddress w r1 = (x, r2)" by (cases "updateMasterAddress w r1")
  have "master_verdict w r1 = Inr addr"
    using assms(5) by (simp add: master_found_iff [symmetric] master_found_def answers_role_def r1_def)
  with updateMasterAddress_serves(1,2) [OF u] assms(2) have r2: "masterAddr r2 = addr" "initialDone r2"
    using fixed_fields(8) [of r2 r1] by (auto simp: serve_def served_def r1_def)
  have "RefreshAddresses w r = r2"
    using assms(2,4) u by (auto simp: RefreshAddresses_def r1_def split: option.splits)
  with r2 New_proxy_methods(1,2) [OF assms(1)] assms(2,3,6) show ?thesis
    by (simp add: connectBackend_def pickAndDial_def pickMaster_def MasterAddress_def)
qed

theorem failover_reconnects_witness:
  "\<exists>r'. connectBackend sample_proxy (pickMaster sample_proxy) down_net good_world up_net
       (resolved\<lparr>masterAddr := ''10.9.9.9:7''\<rparr>) =
      (Some (Inr ((new_conn, [one_read ''+hi'']), ''10.0.0.1:7'', ''master'')), r', [''10.9.9.9:7'', ''10.0.0.1:7'']) \<and>
    MasterAddress r' = Some ''10.0.0.1:7''"
  using failover_reconnects [OF sample_proxy_new, of "resolved\<lparr>masterAddr := ''10.9.9.9:7''\<rparr>" down_net ErrClosed good_world
      "''10.0.0.1:7''" up_net "(new_conn, [one_read ''+hi''])"]
  by (simp add: master_found_iff dialRedis_def TCPConnectWithTimeout_def down_net_def up_net_def)

text \<open>
  C21. Authentication comes first: a client whose TLS handshake fails is closed, and nothing
  else happens; no backend is dialled and the resolver is not even asked.
\<close>

theorem handshake_before_backend:
  assumes "\<not> completeClientHandshake c"
  shows "handle uni p l n1 w n2 w' n3 c s = (HandshakeFailed (Close (inConn c)), s, [])"
  using assms by (simp add: handle_def proxy_conn_def routedProxy_def)

theorem handshake_before_backend_witness:
  "snd (snd (handle (\<lambda>s. s) sample_proxy \<lparr>lnEndpoint = MasterEndpoint, lnAddr = undefined, lnTLS = True, lnRouted = True\<rparr>
     up_net good_world up_net good_world up_net (sample_client\<lparr>inHandshake := Some (\<lambda>t. Some ErrClosed)\<rparr>) resolved)) = []"
proof -
  have "\<not> completeClientHandshake (sample_client\<lparr>inHandshake := Some (\<lambda>t. Some ErrClosed)\<rparr>)"
    by (simp add: completeClientHandshake_def)
  then show ?thesis by (simp add: handshake_before_backend)
qed

text \<open>
  C22. A piped session hands on exactly what the idle clocks let through: when neither side stops
  reading, the client receives the bytes that the reads of the backend connection deliver and the
  backend those of the client connection, in order, up to the end or the idle timeout of the
  connection; then both connections are closed. When a side does stop, it has received a
  prefix. What is delivered is all that the connection's reads returned, unless a read returned
  bytes together with a passed deadline: \<open>idleConn.Read\<close> reads on and loses those.
\<close>

theorem piped_session_transparent:
  assumes "proxy_conn p pick n1 w n2 c s = (Piped label addr client' remote', s', d)"
    "connectBackend p pick n1 w n2 s = (Some (Inr ((remote, remoteReads), addr', label')), t, d')"
  shows "conn_closed client' \<and> conn_closed remote' \<and> half_closed client' \<and> half_closed remote' \<and>
    (\<exists>x. prefix x (delivered (idleTimeout p) remoteReads) \<and> written client' = written (inConn c) @ x \<and>
       (budget (inConn c) = None \<longrightarrow> x = delivered (idleTimeout p) remoteReads)) \<and>
    (\<exists>y. prefix y (delivered (idleTimeout p) (inReads c)) \<and> written remote' = written remote @ y \<and>
       (budget remote = None \<longrightarrow> y = delivered (idleTimeout p) (inReads c))) \<and>
    (\<forall>rds. (\<forall>rd\<in>set rds. \<not> loses (idleTimeout p) rd) \<longrightarrow>
       delivered (idleTimeout p) rds = received (idleTimeout p) rds)"
proof -
  have pw: "\<exists>x. prefix x (avail r) \<and> written w' = written w @ x \<and> (budget w = None \<longrightarrow> x = avail r) \<and> half_closed w'"
    if "pipe w r = (e, w', r')" for w r e w' r'
  proof -
    from pipe_prefix [OF that] obtain x where "prefix x (avail r)" "written w' = written w @ x" by blast
    moreover have "budget w = None \<Longrightarrow> written w' = written w @ avail r"
      using that by (auto simp: pipe_def Copy_def CloseWrite_def)
    moreover have "half_closed w'" using that by (auto simp: pipe_def CloseWrite_def split: prod.splits)
    ultimately show ?thesis by auto
  qed
  obtain e1 c1 r1 e2 c2 r2 where p: "pipe (inConn c) (pipeReader p remoteReads) = (e1, c1, r1)"
    "pipe remote (pipeReader p (inReads c)) = (e2, c2, r2)"
    by (metis prod_cases3)
  have "client' = Close c1" "remote' = Close c2"
    using assms p by (auto simp: proxy_conn_def split: if_splits)
  with pw [OF p(1)] pw [OF p(2)] delivered_received [of _ "idleTimeout p"] show ?thesis
    by (auto simp: Close_def pipeReader_routed)
qed

theorem piped_session_transparent_witness:
  "\<exists>client' remote' s'. proxy_conn sample_proxy (pickMaster sample_proxy) up_net good_world up_net sample_client resolved =
      (Piped ''master'' ''10.0.0.1:7'' client' remote', s', [''10.0.0.1:7'']) \<and>
    written client' = ''+hi'' \<and> written remote' = ''PING''"
proof -
  obtain client' remote' where r: "proxy_conn sample_proxy (pickMaster sample_proxy) up_net good_world up_net sample_client resolved =
      (Piped ''master'' ''10.0.0.1:7'' client' remote', resolved, [''10.0.0.1:7''])"
    using sample_piped by blast
  from piped_session_transparent [OF r sample_connect] r show ?thesis
    by (auto simp: sample_client_def new_conn_def one_read_delivered)
qed

text \<open>
  C18. The connection limit: however clients come and go on the two endpoints, never more
  than \<open>MaxConnections\<close> sessions run in total; a client is turned away exactly when that
  many are running, and served as soon as one of them has ended. With a limit of zero or
  less nobody is turned away.
\<close>

theorem connection_limit:
  assumes "NewRedisSentinelProxy resolve cfg m = Inr p" "MaxConnections cfg = Some n" "serving (sem p) st"
  shows "(0 < n \<longrightarrow> int (length (live st)) \<le> n) \<and>
    (\<forall>ep. listen_step (sem p) (Accepted ep) st =
       Some (if 0 < n \<and> int (length (live st)) = n then st\<lparr>refused := Suc (refused st)\<rparr>
             else st\<lparr>live := live st @ [ep], tokens := (if 0 < n then Suc (length (live st)) else 0)\<rparr>)) \<and>
    (\<forall>k < length (live st). \<exists>st'. listen_step (sem p) (SessionEnded k) st = Some st' \<and>
       live st' = remove_at k (live st) \<and>
       (\<forall>ep. \<exists>st''. listen_step (sem p) (Accepted ep) st' = Some st'' \<and> live st'' = live st' @ [ep]))"
proof -
  have lim: "sem p = (if 0 < n then Some (nat n) else None)" using New_proxy_fields(9) [OF assms(1)] assms(2) by simp
  show ?thesis
  proof (cases "0 < n")
    case True
    have "tokens st = length (live st)" "length (live st) \<le> nat n"
      using serving_invariant [OF assms(3)] lim True by simp_all
    with lim True show ?thesis by (auto simp: Let_def)
  next
    case False
    have "tokens st = 0" using serving_invariant [OF assms(3)] lim False by simp
    with lim False show ?thesis by (auto simp: Let_def)
  qed
qed

theorem connection_limit_witness:
  "serving (sem sample_proxy) (idle_server\<lparr>tokens := 1, live := [ReplicaEndpoint]\<rparr>) \<and>
   (\<exists>st. listen_step (sem sample_proxy) (SessionEnded 0) (idle_server\<lparr>tokens := 1, live := [ReplicaEndpoint]\<rparr>) = Some st)"
proof -
  have "serving (sem sample_proxy) (idle_server\<lparr>tokens := 1, live := [ReplicaEndpoint]\<rparr>)"
    using serving.step [OF serving.idle, of "sem sample_proxy" "Accepted ReplicaEndpoint"]
    by (simp add: idle_server_def)
  moreover have "MaxConnections both_cfg = Some 100" by (simp add: both_cfg_def sample_cfg_def Default_def)
  ultimately show ?thesis
    using connection_limit [OF sample_proxy_new] by fastforce
qed

text \<open>
  C26. A loaded configuration starts: for whatever \<open>Load\<close> accepts, the construction of the
  resolver and the proxy dereferences no nil pointer, and it fails only when a listen address
  does not resolve or when router mode has no master endpoint. The proxy's replica picks then
  have a resolver to ask.
\<close>

theorem loaded_config_starts:
  assumes "LoadCfg h flagCfg path = Inr cfg"
  shows "case startProxying resolve cfg of
      Inl e \<Rightarrow> e = ResolvingListen \<and> resolve (the (Listen cfg)) = None \<or>
        e = ResolvingReplicaListen \<and> resolve (the (ReplicaListen cfg)) = None \<or>
        e = RouterNeedsListen \<and> \<not> strSet (Listen cfg) \<and> RouterMode cfg = Some True
    | Inr (r, p) \<Rightarrow> (replicaAddr p \<noteq> None \<or> router p \<longrightarrow> replicaResolver p = Some ReplicaAddress) \<and>
        (localAddr p \<noteq> None) = strSet (Listen cfg) \<and> (replicaAddr p \<noteq> None) = strSet (ReplicaListen cfg) \<and>
        router p = (RouterMode cfg = Some True)"
proof (cases "startProxying resolve cfg")
  case (Inl e)
  with loaded_start_error [OF assms this] show ?thesis by simp
next
  case (Inr rp)
  then obtain r p where rp: "rp = (r, p)" "startProxying resolve cfg = Inr (r, p)" by (cases rp) auto
  note new = startProxying_parts(2) [OF rp(2)]
  from rp New_proxy_methods(3) [OF new] New_proxy_fields(10,11,12) [OF new] show ?thesis
    by (auto simp del: not_None_eq)
qed

theorem loaded_config_starts_witness:
  "\<exists>cfg r p. LoadCfg sample_host (Some zero_config) ''c.yaml'' = Inr cfg \<and>
     startProxying sample_resolve cfg = Inr (r, p) \<and> \<not> router p"
proof -
  obtain cfg where c: "LoadCfg sample_host (Some zero_config) ''c.yaml'' = Inr cfg" "RouterMode cfg = Some False"
    using sample_load_router by blast
  from loaded_config_starts [OF c(1), of sample_resolve] c show ?thesis
    by (cases "startProxying sample_resolve cfg") (auto simp: sample_resolve_def)
qed

text \<open>
  C33. Router mode without a replica endpoint never uses a replica: \<open>trackReplicas\<close> depends
  on \<open>-replica-listen\<close> alone, so in every reachable state the routed session is opened
  without a replica connection, dials nothing for it, and sends every command, read-only ones
  included, to the master.
\<close>

theorem router_alone_has_no_replicas:
  assumes "startProxying resolve cfg = Inr (r0, p)" "RouterMode cfg = Some True" "\<not> strSet (ReplicaListen cfg)"
    "running r0 W r" "w \<in> W" "w' \<in> W"
    "connectBackend p (pickMaster p) n1 w n2 r = (Some (Inr ((remote, remoteR), addr, label)), s1, d1)"
    "routedProxy uni p n1 w n2 w' n3 c r = (Routed rep e t, r', d)"
  shows "rep = None \<and> d = d1 \<and> replica_sent t = [] \<and>
    (\<exists>x. prefix x (concat (map snd (filter (to_master uni False) (commands uni (routedReader p (inReads c))))) @ piped uni (routedReader p (inReads c))) \<and>
       written (master t) = written remote @ x)"
proof -
  note new = startProxying_parts [OF assms(1)]
  have nt: "\<not> trackReplicas r0"
    using new(1) assms(3) by (auto simp: NewRedisMasterResolver_def Let_def bindR_Inr_iff strSet_def split: option.splits)
  note wired = New_proxy_wired [OF new(2)]
  have s1: "running r0 W s1"
    using sentinel_resolver.connectBackend_sound [OF wired sentinel_resolver.sound_pickMaster [OF wired] assms(4,5,7)] ..
  have rr: "replicaResolver p = Some ReplicaAddress" "refresher p = Some RefreshAddresses"
    using New_proxy_methods [OF new(2)] New_proxy_fields(12) [OF new(2)] assms(2) by auto
  have "running r0 W (RefreshAddresses w' s1)" using running_act [OF s1, of "Refresh w'"] assms(6) by simp
  with s1 have "replicaAddrs s1 = []" "replicaAddrs (RefreshAddresses w' s1) = []"
    using running_verified(3) nt by blast+
  from dialReplica_untracked [OF rr this] obtain z s3 where
    rep: "dialReplicaForRouting p w' n3 s1 = (z, s3, [])" "z = None \<or> z = Some (Inr None)" by blast
  define sess where "sess = \<lparr>client = inConn c, clientR = routedReader p (inReads c), master = remote, masterR = routedReader p remoteR, replica = None,
       replicaR = \<lparr>avail = [], rerr = EOF\<rparr>, dropped = None, reads = 0, writes = 0\<rparr>"
  obtain e' t' where run: "run uni sess = (e', t')" by (cases "run uni sess")
  have t: "rep = None" "d = d1"
    "t = t'\<lparr>client := Close (client t'), master := Close (master t'), replica := map_option Close (replica t')\<rparr>"
    using assms(7,8) rep run by (auto simp: routedProxy_def sess_def [symmetric] Let_def split: if_splits)
  have "replica_sent t = []" "written (master t) = written (master t')"
    using run_without_replica [OF run] t(3) by (simp_all add: replica_sent_def sess_def Close_def)
  then show ?thesis
    using run_master_sent [OF run] t(1,2) by (auto simp: sent_upto_def owed_master_def sess_def)
qed

theorem router_alone_has_no_replicas_witness:
  "\<exists>r0 p r e t r' d. startProxying sample_resolve router_cfg = Inr (r0, p) \<and>
     routedProxy (\<lambda>s. s) p up_net good_world up_net good_world up_net sample_client r = (Routed None e t, r', d) \<and>
     replica_sent t = []"
proof -
  obtain r0 p r a e t r' d where s: "startProxying sample_resolve router_cfg = Inr (r0, p)"
    "running r0 {good_world} r"
    "connectBackend p (pickMaster p) up_net good_world up_net r =
       (Some (Inr ((new_conn, [one_read ''+hi'']), a, ''master'')), r, [a])"
    "routedProxy (\<lambda>s. s) p up_net good_world up_net good_world up_net sample_client r = (Routed None e t, r', d)"
    using router_sample by blast
  from router_alone_has_no_replicas [OF s(1) _ _ s(2) _ _ s(3,4)] s(1,4) show ?thesis
    by (fastforce simp: router_cfg_def strSet_def)
qed

text \<open>
  C28. The replica endpoint: a client gets a healthy replica when one is known, in turn; when
  none is known it gets the master if the fallback policy is \<open>master\<close>, and is refused, after
  a refresh, if it is \<open>reject\<close>. No pick fails in another way.
\<close>

theorem replica_endpoint_policy:
  assumes "startProxying resolve cfg = Inr (r0, p)" "strSet (ReplicaListen cfg)" "running r0 W r" "initialDone r"
  shows "case pickReplica p r of (x, r') \<Rightarrow>
    if replicaAddrs r \<noteq> []
    then x = Some (Inr (replicaAddrs r ! (unat (replicaIdx r) mod length (replicaAddrs r)), ''replica''))
    else if ReplicaFallback cfg = Some ReplicaFallbackMaster
    then x = Some (Inr (masterAddr r, ''master (replica fallback)''))
    else x = Some (Inl NoHealthyReplica)"
proof -
  note new = startProxying_parts(2) [OF assms(1)]
  have rr: "replicaResolver p = Some ReplicaAddress" "masterResolver p = MasterAddress"
    using New_proxy_methods [OF new] New_proxy_fields(11) [OF new] assms(2) by auto
  have fb: "replicaFallbackMaster p \<longleftrightarrow> ReplicaFallback cfg = Some ReplicaFallbackMaster"
    using New_proxy_fallback [OF new assms(2)] .
  show ?thesis
  proof (cases "replicaAddrs r = []")
    case True
    with rr fb assms(4) show ?thesis
      by (simp add: pickReplica_def ReplicaAddress_def MasterAddress_def)
  next
    case False
    have "length (replicaAddrs r) < 2 ^ 64" using running_length [OF assms(3)] by simp
    with rr fb assms(4) False show ?thesis
      by (simp add: pickReplica_def ReplicaAddress_pick)
  qed
qed

theorem replica_endpoint_policy_witness:
  "fst (pickReplica sample_proxy resolved) = Some (Inr (''10.0.0.2:7'', ''replica''))"
proof -
  have "running sample_resolver {good_world} resolved"
    using sample_new resolved_reaches by (auto simp: running_def)
  moreover have "strSet (ReplicaListen both_cfg)" by (simp add: both_cfg_def sample_cfg_def strSet_def)
  ultimately show ?thesis
    using replica_endpoint_policy [OF sample_start] by (fastforce split: prod.splits)
qed

text \<open>
  C32. The idle clock. A session's read fails with a deadline error only when neither
  direction has seen a byte for the whole timeout; every other result of the connection is
  handed on at once. The exception: bytes that the connection returns together with a
  deadline error are dropped, because the loop reads again into the same buffer.
\<close>

theorem idle_read_times_out_when_silent:
  assumes "0 < timeout"
  shows "(idleConn_Read timeout rds = Some (b, Some DeadlineExceeded, clk) \<longrightarrow>
      (\<exists>rd\<in>set rds. rrDeadline rd = Some DeadlineExceeded \<or>
         b = [] \<and> rrErr rd = Some DeadlineExceeded \<and> clk = rrActivity rd \<and> timeout \<le> rrNow rd - clk)) \<and>
    (rrDeadline rd = None \<and> rrErr rd \<noteq> Some DeadlineExceeded \<longrightarrow>
      idleConn_Read timeout (rd # rds) =
        Some (rrBytes rd, rrErr rd, if rrBytes rd \<noteq> [] then rrNow rd else rrActivity rd)) \<and>
    (rrDeadline rd = None \<and> rrBytes rd \<noteq> [] \<and> rrErr rd = Some DeadlineExceeded \<longrightarrow>
      idleConn_Read timeout (rd # rds) = idleConn_Read timeout rds)"
proof -
  have "\<exists>rd\<in>set rds. rrDeadline rd = Some DeadlineExceeded \<or>
         b = [] \<and> rrErr rd = Some DeadlineExceeded \<and> clk = rrActivity rd \<and> timeout \<le> rrNow rd - clk"
    if r: "idleConn_Read timeout rds = Some (b, Some DeadlineExceeded, clk)"
  proof (rule idleConn_Read_stops [OF r])
    fix pre q post
    assume "rds = pre @ q # post"
      "rrDeadline q = None \<and> b = rrBytes q \<and> Some DeadlineExceeded = rrErr q \<and>
         clk = (if b \<noteq> [] then rrNow q else rrActivity q) \<and>
         (Some DeadlineExceeded = Some DeadlineExceeded \<longrightarrow> timeout \<le> rrNow q - clk) \<or>
       rrDeadline q \<noteq> None \<and> b = [] \<and> Some DeadlineExceeded = rrDeadline q"
    with assms show ?thesis by (intro bexI [of _ q]) (auto split: if_splits)
  qed
  then show ?thesis using assms by simp
qed

theorem idle_read_times_out_when_silent_witness:
  "idleConn_Read 30 [\<lparr>rrDeadline = None, rrBytes = ''abc'', rrErr = Some DeadlineExceeded, rrNow = 100, rrActivity = 60\<rparr>,
     \<lparr>rrDeadline = None, rrBytes = ''def'', rrErr = None, rrNow = 101, rrActivity = 100\<rparr>] = Some (''def'', None, 101)"
  using idle_read_times_out_when_silent [of 30
      "[\<lparr>rrDeadline = None, rrBytes = ''def'', rrErr = None, rrNow = 101, rrActivity = 100\<rparr>]" _ _
      "\<lparr>rrDeadline = None, rrBytes = ''abc'', rrErr = Some DeadlineExceeded, rrNow = 100, rrActivity = 60\<rparr>"]
    idle_read_times_out_when_silent [of 30 "[]" _ _
      "\<lparr>rrDeadline = None, rrBytes = ''def'', rrErr = None, rrNow = 101, rrActivity = 100\<rparr>"]
  by simp

end
