(* ===== verification/Lifecycle.thy ===== *)
theory Lifecycle
  imports Proxying
begin

text \<open>
  The life of the process after its construction: \<open>runProxying\<close> in \<open>main.go\<close> with the two
  error groups, \<open>UpdateMasterAddressLoop\<close> as a goroutine, and \<open>Run\<close>, \<open>runListenLoop\<close> and
  \<open>closeListenerByContext\<close> of \<open>pkg/proxy\<close> as goroutines with program counters. A state is
  the record \<open>process\<close>; \<open>proc_step\<close> is what one labelled step of one goroutine does to it, or
  \<open>None\<close> where the step is not enabled. Every interleaving is a sequence of such steps.

  The locale \<open>progress\<close> is the proof rule for liveness under weak fairness, interpreted on the
  process as \<open>shutdown\<close>.
\<close>

section \<open>Definitions\<close>

subsection \<open>The update loop as a goroutine\<close>

text \<open>
  Where \<open>UpdateMasterAddressLoop\<close> stands: about to make its first attempt, in the \<open>select\<close> of
  \<open>initialMasterAddressResolve\<close> after a failure, in the \<open>select\<close> on the ticker, in the
  \<open>select\<close> of the backoff, or returned. The counter of failures and the last error go along.
\<close>

datatype loop_pc =
    LoopStart
  | InitialWait int resolve_error
  | Ticking int "resolve_error option"
  | Backoff int resolve_error
  | LoopDone "resolve_error option"

text \<open>The condition of the \<open>for\<close> loop, with the deferred close of the sentinel client.\<close>

definition loopTop :: "int \<Rightarrow> resolve_error option \<Rightarrow> resolver \<Rightarrow> loop_pc \<times> resolver" where
  "loopTop errCount err r =
     (if errCount \<le> retryOnMasterResolveFail r then (Ticking errCount err, r)
      else (LoopDone err, closeSentinel r))"

text \<open>An iteration of \<open>initialMasterAddressResolve\<close> up to its \<open>select\<close>.\<close>

definition initialAttempt :: "int \<Rightarrow> world \<Rightarrow> resolver \<Rightarrow> loop_pc \<times> resolver" where
  "initialAttempt errCount w r =
     (case updateMasterAddress w r of
        (None, r1) \<Rightarrow> loopTop 0 None (r1\<lparr>initialDone := True\<rparr>)
      | (Some e, r1) \<Rightarrow>
          if NotReady e then (InitialWait errCount e, r1)
          else if retryOnMasterResolveFail r1 < errCount + 1
          then (LoopDone (Some e), closeSentinel (r1\<lparr>initialDone := True\<rparr>))
          else (InitialWait (errCount + 1) e, r1))"

text \<open>The goroutine wakes up: its context is done, or the timer it waits for has fired.\<close>

fun loop_step :: "loop_pc \<Rightarrow> wake \<Rightarrow> resolver \<Rightarrow> (loop_pc \<times> resolver) option" where
  "loop_step LoopStart ev r = None"
| "loop_step (InitialWait n e) CtxDone r = Some (LoopDone (Some e), closeSentinel (r\<lparr>initialDone := True\<rparr>))"
| "loop_step (InitialWait n e) (Fired w) r = Some (initialAttempt n w r)"
| "loop_step (Ticking n err) CtxDone r = Some (LoopDone None, closeSentinel r)"
| "loop_step (Ticking n err) (Fired w) r = Some
     (case updateMasterAddress w r of
        (None, r1) \<Rightarrow> loopTop 0 None r1
      | (Some e, r1) \<Rightarrow> (Backoff (if NotReady e then n else n + 1) e, r1))"
| "loop_step (Backoff n e) CtxDone r = Some (LoopDone None, closeSentinel r)"
| "loop_step (Backoff n e) (Fired w) r = Some (loopTop n (Some e) r)"
| "loop_step (LoopDone x) ev r = None"

text \<open>The goroutine on its own, over a script of events.\<close>

fun loop_run :: "loop_pc \<times> resolver \<Rightarrow> wake list \<Rightarrow> loop_pc \<times> resolver" where
  "loop_run c [] = c"
| "loop_run (pc, r) (ev # evs) =
     (case loop_step pc ev r of None \<Rightarrow> (pc, r) | Some c \<Rightarrow> loop_run c evs)"

subsection \<open>The process\<close>

text \<open>
  An endpoint that \<open>Run\<close> has opened: its listener, whether that is still open, where its
  accept loop stands (before the check of the context, blocked in \<open>Accept\<close>, asleep after an
  error, returned) and whether \<open>closeListenerByContext\<close> still waits.
\<close>

datatype accept_pc = AcceptTop | InAccept | AcceptSleeping | AcceptDone

record lane =
  laneListener :: listener
  laneOpen :: bool
  laneAccept :: accept_pc
  laneCloser :: bool

datatype run_pc = OpeningMaster | OpeningReplica | RunWaiting | RunDone "io_error option"

datatype proc_error = ResolveFailed resolve_error | ListenFailed io_error

text \<open>
  The state: the resolver that all goroutines share, the goroutines of the outer group (the
  update loop and \<open>Run\<close>), those of the inner one (the lanes), the sessions, the context of the
  outer group, and what \<open>eg.Wait\<close> returned once it has. The inner context is done exactly
  when the outer one is, because no goroutine of the inner group returns an error.
\<close>

record process =
  pResolver :: resolver
  pLoop :: loop_pc
  pRun :: run_pc
  pLanes :: "lane list"
  pServer :: server
  pCtx :: bool
  pSignalled :: bool
  pFirstErr :: "proc_error option"
  pExit :: "proc_error option option"

definition proc_init :: "resolver \<Rightarrow> process" where
  "proc_init r = \<lparr>pResolver = r, pLoop = LoopStart, pRun = OpeningMaster, pLanes = [], pServer = idle_server,
     pCtx = False, pSignalled = False, pFirstErr = None, pExit = None\<rparr>"

text \<open>A goroutine of the outer error group returns: the first error is kept and cancels.\<close>

definition groupDone :: "proc_error option \<Rightarrow> process \<Rightarrow> process" where
  "groupDone x s =
     (case x of
        None \<Rightarrow> s
      | Some e \<Rightarrow> s\<lparr>pFirstErr := (case pFirstErr s of None \<Rightarrow> Some e | Some e0 \<Rightarrow> Some e0), pCtx := True\<rparr>)"

definition loopMoves :: "loop_pc \<times> resolver \<Rightarrow> process \<Rightarrow> process" where
  "loopMoves c s =
     (let s' = s\<lparr>pLoop := fst c, pResolver := snd c\<rparr>
      in case fst c of LoopDone x \<Rightarrow> groupDone (map_option ResolveFailed x) s' | _ \<Rightarrow> s')"

text \<open>
  \<open>Run\<close> opens an endpoint: \<open>x\<close> is the result of \<open>net.ListenTCP\<close>. On an error the deferred
  function closes the listeners opened before and \<open>Run\<close> returns; otherwise the two
  goroutines of the endpoint are started.
\<close>

definition newLane :: "listener \<Rightarrow> lane" where
  "newLane l = \<lparr>laneListener = l, laneOpen = True, laneAccept = AcceptTop, laneCloser = True\<rparr>"

definition openEndpoint ::
  "'s proxy \<Rightarrow> endpoint \<Rightarrow> tcpAddr option \<Rightarrow> bool \<Rightarrow> run_pc \<Rightarrow> io_error option \<Rightarrow> process \<Rightarrow> process" where
  "openEndpoint p ep addr routed next x s =
     (case addr of
        None \<Rightarrow> s\<lparr>pRun := next\<rparr>
      | Some a \<Rightarrow>
          (case x of
             Some e \<Rightarrow> groupDone (Some (ListenFailed e))
               (s\<lparr>pRun := RunDone (Some e), pLanes := map (\<lambda>l. l\<lparr>laneOpen := False\<rparr>) (pLanes s)\<rparr>)
           | None \<Rightarrow> s\<lparr>pRun := next, pLanes := pLanes s @
               [newLane \<lparr>lnEndpoint = ep, lnAddr = a, lnTLS = (tlsConf p \<noteq> None), lnRouted = routed\<rparr>]\<rparr>))"

text \<open>
  The steps: a signal, the update loop begins or wakes up, \<open>Run\<close> opens an endpoint or returns
  from \<open>errGr.Wait\<close>, the closer of a lane wakes up, its accept loop checks the context, gets a
  connection, gets an error of an open or of a closed listener, or wakes up; a session ends,
  refreshes the addresses or picks a replica; \<open>eg.Wait\<close> returns; nothing happens.
\<close>

datatype label =
    Signal
  | LoopBegins world
  | LoopWakes wake
  | Opens "io_error option"
  | RunReturns
  | CloserWakes nat
  | AcceptChecks nat
  | AcceptsConn nat
  | AcceptError nat
  | AcceptClosed nat
  | SleepOver nat
  | SessionEnds nat
  | SessionRefreshes world
  | SessionPicks
  | WaitReturns
  | Nothing

definition onLane :: "nat \<Rightarrow> (lane \<Rightarrow> lane option) \<Rightarrow> process \<Rightarrow> process option" where
  "onLane k f s =
     (if k < length (pLanes s) then map_option (\<lambda>l. s\<lparr>pLanes := (pLanes s)[k := l]\<rparr>) (f (pLanes s ! k)) else None)"

text \<open>
  \<open>closeListenerByContext\<close> after \<open>ctx.Done\<close>, and the accept loop between two blocking calls:
  the check at the top, an error of \<open>Accept\<close> (on a closed listener there is nothing else),
  the end of the sleep.
\<close>

definition closeListenerByContext :: "bool \<Rightarrow> lane \<Rightarrow> lane option" where
  "closeListenerByContext ctx l =
     (if ctx \<and> laneCloser l then Some (l\<lparr>laneOpen := False, laneCloser := False\<rparr>) else None)"

definition acceptTop :: "bool \<Rightarrow> lane \<Rightarrow> lane option" where
  "acceptTop ctx l =
     (if laneAccept l = AcceptTop then Some (l\<lparr>laneAccept := (if ctx then AcceptDone else InAccept)\<rparr>) else None)"

definition acceptErr :: "bool \<Rightarrow> lane \<Rightarrow> lane option" where
  "acceptErr ctx l =
     (if laneAccept l = InAccept then Some (l\<lparr>laneAccept := (if ctx then AcceptDone else AcceptSleeping)\<rparr>) else None)"

definition acceptConn :: "lane \<Rightarrow> lane option" where
  "acceptConn l =
     (if laneAccept l = InAccept \<and> laneOpen l then Some (l\<lparr>laneAccept := AcceptTop\<rparr>) else None)"

definition sleepOver :: "lane \<Rightarrow> lane option" where
  "sleepOver l = (if laneAccept l = AcceptSleeping then Some (l\<lparr>laneAccept := AcceptTop\<rparr>) else None)"

fun live_step :: "'s proxy \<Rightarrow> label \<Rightarrow> process \<Rightarrow> process option" where
  "live_step p Signal s = Some (s\<lparr>pSignalled := True, pCtx := True\<rparr>)"
| "live_step p (LoopBegins w) s =
     (if pLoop s = LoopStart then Some (loopMoves (initialAttempt 0 w (pResolver s)) s) else None)"
| "live_step p (LoopWakes ev) s =
     (if ev = CtxDone \<and> \<not> pCtx s then None
      else map_option (\<lambda>c. loopMoves c s) (loop_step (pLoop s) ev (pResolver s)))"
| "live_step p (Opens x) s =
     (case pRun s of
        OpeningMaster \<Rightarrow> Some (openEndpoint p MasterEndpoint (localAddr p) (router p) OpeningReplica x s)
      | OpeningReplica \<Rightarrow> Some (openEndpoint p ReplicaEndpoint (replicaAddr p) False RunWaiting x s)
      | _ \<Rightarrow> None)"
| "live_step p RunReturns s =
     (if pRun s = RunWaiting \<and> (\<forall>l\<in>set (pLanes s). laneAccept l = AcceptDone \<and> \<not> laneCloser l)
      then Some (s\<lparr>pRun := RunDone None\<rparr>) else None)"
| "live_step p (CloserWakes k) s = onLane k (closeListenerByContext (pCtx s)) s"
| "live_step p (AcceptChecks k) s = onLane k (acceptTop (pCtx s)) s"
| "live_step p (AcceptsConn k) s =
     (case onLane k acceptConn s of
        None \<Rightarrow> None
      | Some s' \<Rightarrow> map_option (\<lambda>v. s'\<lparr>pServer := v\<rparr>)
          (listen_step (sem p) (Accepted (lnEndpoint (laneListener (pLanes s ! k)))) (pServer s)))"
| "live_step p (AcceptError k) s = onLane k (\<lambda>l. if laneOpen l then acceptErr (pCtx s) l else None) s"
| "live_step p (AcceptClosed k) s = onLane k (\<lambda>l. if laneOpen l then None else acceptErr (pCtx s) l) s"
| "live_step p (SleepOver k) s = onLane k sleepOver s"
| "live_step p (SessionEnds k) s =
     map_option (\<lambda>v. s\<lparr>pServer := v\<rparr>) (listen_step (sem p) (SessionEnded k) (pServer s))"
| "live_step p (SessionRefreshes w) s =
     (if live (pServer s) = [] then None else Some (s\<lparr>pResolver := RefreshAddresses w (pResolver s)\<rparr>))"
| "live_step p SessionPicks s =
     (if live (pServer s) = [] then None else Some (s\<lparr>pResolver := snd (ReplicaAddress (pResolver s))\<rparr>))"
| "live_step p WaitReturns s =
     (case (pLoop s, pRun s) of
        (LoopDone _, RunDone _) \<Rightarrow> Some (s\<lparr>pExit := Some (pFirstErr s)\<rparr>)
      | _ \<Rightarrow> None)"
| "live_step p Nothing s = Some s"

text \<open>Once \<open>runProxying\<close> has returned the process is over.\<close>

definition proc_step :: "'s proxy \<Rightarrow> label \<Rightarrow> process \<Rightarrow> process option" where
  "proc_step p l s = (if pExit s = None \<or> l = Nothing then live_step p l s else None)"

text \<open>The end of \<open>main\<close>: the status of a process whose \<open>runProxying\<close> has returned.\<close>

definition exitStatus :: "process \<Rightarrow> nat option" where
  "exitStatus s = map_option (\<lambda>err. case err of None \<Rightarrow> 0 | Some _ \<Rightarrow> 1) (pExit s)"

text \<open>The worlds of a step, and the states the process can reach while it sees worlds of \<open>W\<close>.\<close>

fun label_worlds :: "label \<Rightarrow> world set" where
  "label_worlds (LoopBegins w) = {w}"
| "label_worlds (LoopWakes (Fired w)) = {w}"
| "label_worlds (SessionRefreshes w) = {w}"
| "label_worlds _ = {}"

inductive proc_reach :: "'s proxy \<Rightarrow> resolver \<Rightarrow> world set \<Rightarrow> process \<Rightarrow> bool" for p r0 W where
  start: "proc_reach p r0 W (proc_init r0)"
| step: "proc_reach p r0 W s \<Longrightarrow> proc_step p l s = Some s' \<Longrightarrow> label_worlds l \<subseteq> W \<Longrightarrow> proc_reach p r0 W s'"

section \<open>Facts\<close>

subsection \<open>Liveness under weak fairness\<close>

text \<open>
  An infinite run with its labels is fair when no kind of step stays enabled for ever without
  being taken. Labels of no kind are up to the environment.
\<close>

definition fair_run :: "('l \<Rightarrow> 's \<Rightarrow> 's option) \<Rightarrow> ('l \<Rightarrow> 'k option) \<Rightarrow> (nat \<Rightarrow> 's) \<Rightarrow> (nat \<Rightarrow> 'l) \<Rightarrow> bool" where
  "fair_run stp kind \<sigma> lab \<longleftrightarrow>
     (\<forall>i. stp (lab i) (\<sigma> i) = Some (\<sigma> (Suc i))) \<and>
     (\<forall>i k. (\<forall>j\<ge>i. \<exists>l. kind l = Some k \<and> stp l (\<sigma> j) \<noteq> None) \<longrightarrow> (\<exists>j\<ge>i. kind (lab j) = Some k))"

text \<open>
  The rule: as long as the goal is not reached, the helpful kind of step is enabled and
  brings the rank down; every other step brings the rank down too, or leaves both the rank and
  the helpful kind as they are.
\<close>

locale progress =
  fixes stp :: "'l \<Rightarrow> 's \<Rightarrow> 's option"
    and kind :: "'l \<Rightarrow> 'k option"
    and inv :: "'s \<Rightarrow> bool"
    and goal :: "'s \<Rightarrow> bool"
    and rank :: "'s \<Rightarrow> nat"
    and helper :: "'s \<Rightarrow> 'k"
  assumes keeps: "\<lbrakk>inv s; stp l s = Some s'\<rbrakk> \<Longrightarrow> inv s'"
    and enabled: "\<lbrakk>inv s; \<not> goal s\<rbrakk> \<Longrightarrow> \<exists>l. kind l = Some (helper s) \<and> stp l s \<noteq> None"
    and decreases: "\<lbrakk>inv s; \<not> goal s; stp l s = Some s'\<rbrakk> \<Longrightarrow>
      goal s' \<or> rank s' < rank s \<or> rank s' = rank s \<and> helper s' = helper s \<and> kind l \<noteq> Some (helper s)"
begin

lemma run_keeps:
  assumes "fair_run stp kind \<sigma> lab" "inv (\<sigma> i)" "i \<le> j"
  shows "inv (\<sigma> j)"
  using assms(3)
proof (induction j rule: dec_induct)
  case (step n)
  with assms(1) show ?case using keeps [of "\<sigma> n" "lab n"] by (simp add: fair_run_def)
qed (rule assms(2))

lemma rank_drops:
  assumes run: "fair_run stp kind \<sigma> lab" and "inv (\<sigma> i)" and no: "\<And>j. i \<le> j \<Longrightarrow> \<not> goal (\<sigma> j)"
  shows "\<exists>j\<ge>i. rank (\<sigma> j) < rank (\<sigma> i)"
proof (rule ccontr)
  assume "\<not> ?thesis"
  then have ge: "rank (\<sigma> i) \<le> rank (\<sigma> j)" if "i \<le> j" for j using that by (meson not_le)
  have st: "stp (lab j) (\<sigma> j) = Some (\<sigma> (Suc j))" for j using run by (simp add: fair_run_def)
  have iv: "inv (\<sigma> j)" if "i \<le> j" for j using run_keeps [OF run assms(2) that] .
  have same: "rank (\<sigma> j) = rank (\<sigma> i) \<and> helper (\<sigma> j) = helper (\<sigma> i)" if "i \<le> j" for j
    using that
  proof (induction j rule: dec_induct)
    case (step j)
    then have "rank (\<sigma> (Suc j)) = rank (\<sigma> j) \<and> helper (\<sigma> (Suc j)) = helper (\<sigma> j)"
      using decreases [OF iv no st, of j] no [of "Suc j"] ge [of "Suc j"] by auto
    with step.IH show ?case by simp
  qed simp
  have "\<exists>l. kind l = Some (helper (\<sigma> i)) \<and> stp l (\<sigma> j) \<noteq> None" if "i \<le> j" for j
    using enabled [OF iv [OF that] no [OF that]] same [OF that] by simp
  then obtain j where j: "i \<le> j" "kind (lab j) = Some (helper (\<sigma> i))"
    using run unfolding fair_run_def by blast
  with decreases [OF iv no st, of j] same [of j] no [of "Suc j"] ge [of "Suc j"] show False by auto
qed

lemma goal_reached:
  assumes "fair_run stp kind \<sigma> lab" "inv (\<sigma> i)"
  shows "\<exists>j\<ge>i. goal (\<sigma> j)"
  using assms(2)
proof (induction "rank (\<sigma> i)" arbitrary: i rule: less_induct)
  case less
  show ?case
  proof (rule ccontr)
    assume no: "\<not> ?case"
    then obtain j where "i \<le> j" "rank (\<sigma> j) < rank (\<sigma> i)"
      using rank_drops [OF assms(1) less.prems] by blast
    with less.hyps [of j] run_keeps [OF assms(1) less.prems] no show False by (meson order_trans)
  qed
qed

end

subsection \<open>The shutdown\<close>

text \<open>
  The turns that the scheduler, the listeners and the \<open>select\<close>s owe a goroutine: the first
  attempt is made, the \<open>Done\<close> branch of a \<open>select\<close> is taken, an endpoint is opened or not, a
  closer wakes up, an accept loop goes on (when it is not blocked in \<open>Accept\<close> on an open
  listener), the groups return.
\<close>

datatype turn = TBegin | TCancel | TOpen | TCloser nat | TAccept nat | TRun | TExit

fun turn_of :: "label \<Rightarrow> turn option" where
  "turn_of (LoopBegins w) = Some TBegin"
| "turn_of (LoopWakes CtxDone) = Some TCancel"
| "turn_of (Opens x) = Some TOpen"
| "turn_of (CloserWakes k) = Some (TCloser k)"
| "turn_of (AcceptChecks k) = Some (TAccept k)"
| "turn_of (AcceptClosed k) = Some (TAccept k)"
| "turn_of (SleepOver k) = Some (TAccept k)"
| "turn_of RunReturns = Some TRun"
| "turn_of WaitReturns = Some TExit"
| "turn_of _ = None"

fun loop_rank :: "loop_pc \<Rightarrow> nat" where
  "loop_rank LoopStart = 2"
| "loop_rank (LoopDone x) = 0"
| "loop_rank _ = 1"

fun run_rank :: "run_pc \<Rightarrow> nat" where
  "run_rank OpeningMaster = 9"
| "run_rank OpeningReplica = 5"
| "run_rank RunWaiting = 1"
| "run_rank (RunDone x) = 0"

fun accept_rank :: "accept_pc \<Rightarrow> nat" where
  "accept_rank AcceptDone = 0"
| "accept_rank AcceptTop = 1"
| "accept_rank _ = 2"

definition lane_rank :: "lane \<Rightarrow> nat" where
  "lane_rank l = accept_rank (laneAccept l) + of_bool (laneCloser l)"

definition proc_rank :: "process \<Rightarrow> nat" where
  "proc_rank s = loop_rank (pLoop s) + run_rank (pRun s) + sum_list (map lane_rank (pLanes s))"

definition lanes_turn :: "lane list \<Rightarrow> turn" where
  "lanes_turn ls =
     (case find (\<lambda>k. laneCloser (ls ! k)) [0..<length ls] of
        Some k \<Rightarrow> TCloser k
      | None \<Rightarrow> (case find (\<lambda>k. laneAccept (ls ! k) \<noteq> AcceptDone) [0..<length ls] of
          Some k \<Rightarrow> TAccept k
        | None \<Rightarrow> TRun))"

definition proc_turn :: "process \<Rightarrow> turn" where
  "proc_turn s =
     (if loop_rank (pLoop s) = 2 then TBegin
      else if loop_rank (pLoop s) = 1 then TCancel
      else case pRun s of
        RunDone _ \<Rightarrow> TExit
      | RunWaiting \<Rightarrow> lanes_turn (pLanes s)
      | _ \<Rightarrow> TOpen)"

definition closing :: "process \<Rightarrow> bool" where
  "closing s \<longleftrightarrow> pCtx s \<and> (\<forall>l\<in>set (pLanes s). laneCloser l \<or> \<not> laneOpen l)"

lemma loop_rank_moves [simp]:
  "loop_rank (fst (loopTop n e r)) \<le> Suc 0" "loop_rank (fst (initialAttempt n w r)) \<le> Suc 0"
  by (auto simp: loopTop_def initialAttempt_def split: prod.splits option.splits)

lemma loop_rank_step:
  "loop_step pc ev r = Some c \<Longrightarrow> loop_rank (fst c) \<le> loop_rank pc \<and> (ev = CtxDone \<longrightarrow> loop_rank (fst c) < loop_rank pc)"
  by (cases "(pc, ev, r)" rule: loop_step.cases) (auto split: prod.splits option.splits)

lemma groupDone_simps [simp]:
  "pLoop (groupDone x s) = pLoop s" "pRun (groupDone x s) = pRun s" "pLanes (groupDone x s) = pLanes s"
  "pServer (groupDone x s) = pServer s" "pResolver (groupDone x s) = pResolver s"
  "pSignalled (groupDone x s) = pSignalled s" "pExit (groupDone x s) = pExit s"
  "pCtx (groupDone x s) \<longleftrightarrow> pCtx s \<or> x \<noteq> None"
  by (simp_all add: groupDone_def split: option.splits)

lemma loopMoves_simps [simp]:
  "pLoop (loopMoves c s) = fst c" "pRun (loopMoves c s) = pRun s" "pLanes (loopMoves c s) = pLanes s"
  "pServer (loopMoves c s) = pServer s" "pResolver (loopMoves c s) = snd c"
  "pSignalled (loopMoves c s) = pSignalled s" "pExit (loopMoves c s) = pExit s"
  "pCtx (loopMoves c s) \<longleftrightarrow> pCtx s \<or> (\<exists>e. fst c = LoopDone (Some e))"
  by (auto simp: loopMoves_def Let_def split: loop_pc.splits)

lemma onLane_Some:
  "onLane k f s = Some s' \<longleftrightarrow>
     k < length (pLanes s) \<and> (\<exists>l. f (pLanes s ! k) = Some l \<and> s' = s\<lparr>pLanes := (pLanes s)[k := l]\<rparr>)"
  by (auto simp: onLane_def)

lemma onLane_rank:
  assumes "onLane k f s = Some s'" "\<And>l'. f (pLanes s ! k) = Some l' \<Longrightarrow> lane_rank l' < lane_rank (pLanes s ! k)"
  shows "proc_rank s' < proc_rank s"
proof -
  from assms obtain l where l: "k < length (pLanes s)" "s' = s\<lparr>pLanes := (pLanes s)[k := l]\<rparr>"
    "lane_rank l < lane_rank (pLanes s ! k)" by (auto simp: onLane_Some)
  have "lane_rank (pLanes s ! k) \<le> sum_list (map lane_rank (pLanes s))"
    using l(1) by (intro elem_le_sum_list [of k "map lane_rank (pLanes s)", simplified]) simp
  with l show ?thesis by (simp add: proc_rank_def map_update sum_list_update)
qed

lemmas lane_defs = closeListenerByContext_def acceptTop_def acceptErr_def acceptConn_def sleepOver_def

lemma openEndpoint_rank:
  assumes "run_rank next + 4 = run_rank (pRun s)"
  shows "proc_rank (openEndpoint p ep addr routed next x s) < proc_rank s"
proof -
  have "lane_rank (l\<lparr>laneOpen := False\<rparr>) = lane_rank l" "lane_rank (newLane m) = 2" for l m
    by (simp_all add: lane_rank_def newLane_def)
  then show ?thesis using assms
    by (auto simp: openEndpoint_def proc_rank_def o_def split: option.splits)
qed

lemma unmoved:
  assumes "pLoop s' = pLoop s" "pRun s' = pRun s" "pLanes s' = pLanes s"
  shows "proc_rank s' = proc_rank s" "proc_turn s' = proc_turn s"
  using assms by (simp_all only: proc_rank_def proc_turn_def)

lemma lane_steps_rank:
  "closeListenerByContext ctx l = Some l' \<Longrightarrow> lane_rank l' < lane_rank l"
  "acceptTop True l = Some l' \<Longrightarrow> lane_rank l' < lane_rank l"
  "acceptErr True l = Some l' \<Longrightarrow> lane_rank l' < lane_rank l"
  "acceptConn l = Some l' \<Longrightarrow> lane_rank l' < lane_rank l"
  "sleepOver l = Some l' \<Longrightarrow> lane_rank l' < lane_rank l"
  by (auto simp: lane_defs lane_rank_def split: if_splits)

text \<open>
  Once the context is done, every step of a goroutine brings the rank down, except that the
  update loop may make another attempt when its timer has fired too.
\<close>

lemma live_step_rank:
  assumes "live_step p l s = Some s'" "pCtx s" "pExit s' = None"
  shows "proc_rank s' < proc_rank s \<or>
    proc_rank s' = proc_rank s \<and> proc_turn s' = proc_turn s \<and> turn_of l \<noteq> Some (proc_turn s)"
proof (cases l)
  case (LoopBegins w)
  have "loop_rank (fst (initialAttempt 0 w (pResolver s))) < 2"
    using loop_rank_moves(2) [of 0 w "pResolver s"] by linarith
  with assms(1) LoopBegins show ?thesis by (auto simp: proc_rank_def split: if_splits)
next
  case (LoopWakes ev)
  with assms(1) obtain c where c: "loop_step (pLoop s) ev (pResolver s) = Some c" "s' = loopMoves c s"
    by (auto split: if_splits)
  note r = loop_rank_step [OF c(1)]
  show ?thesis
  proof (cases "loop_rank (fst c) = loop_rank (pLoop s)")
    case True
    with r have "turn_of l = None" using LoopWakes by (cases ev) auto
    with True c show ?thesis by (simp add: proc_rank_def proc_turn_def split: run_pc.splits)
  next
    case False
    with r c show ?thesis by (simp add: proc_rank_def)
  qed
next
  case (Opens x)
  with assms(1) show ?thesis by (auto split: run_pc.splits intro!: disjI1 openEndpoint_rank)
next
  case RunReturns
  with assms(1) show ?thesis by (auto simp: proc_rank_def split: if_splits)
next
  case (AcceptsConn k)
  with assms(1) obtain v where v: "onLane k acceptConn s = Some v" "proc_rank s' = proc_rank v"
    by (auto simp: proc_rank_def split: option.splits)
  then show ?thesis by (auto intro: disjI1 onLane_rank lane_steps_rank)
next
  case WaitReturns
  with assms(1,3) show ?thesis by (auto split: loop_pc.splits run_pc.splits)
next
  case (CloserWakes k)
  have "proc_rank s' < proc_rank s"
    by (rule onLane_rank [OF assms(1) [unfolded CloserWakes live_step.simps]])
      (use assms(2) in \<open>auto intro: lane_steps_rank split: if_splits\<close>)
  then show ?thesis ..
next
  case (AcceptChecks k)
  have "proc_rank s' < proc_rank s"
    by (rule onLane_rank [OF assms(1) [unfolded AcceptChecks live_step.simps]])
      (use assms(2) in \<open>auto intro: lane_steps_rank split: if_splits\<close>)
  then show ?thesis ..
next
  case (AcceptError k)
  have "proc_rank s' < proc_rank s"
    by (rule onLane_rank [OF assms(1) [unfolded AcceptError live_step.simps]])
      (use assms(2) in \<open>auto intro: lane_steps_rank split: if_splits\<close>)
  then show ?thesis ..
next
  case (AcceptClosed k)
  have "proc_rank s' < proc_rank s"
    by (rule onLane_rank [OF assms(1) [unfolded AcceptClosed live_step.simps]])
      (use assms(2) in \<open>auto intro: lane_steps_rank split: if_splits\<close>)
  then show ?thesis ..
next
  case (SleepOver k)
  have "proc_rank s' < proc_rank s"
    by (rule onLane_rank [OF assms(1) [unfolded SleepOver live_step.simps]])
      (use assms(2) in \<open>auto intro: lane_steps_rank split: if_splits\<close>)
  then show ?thesis ..
qed (use assms in \<open>auto intro!: disjI2 unmoved split: if_splits\<close>)

text \<open>
  What a step does to the lanes, with the context before and after it: each is a new one, or
  an old one after one of its moves, or one whose listener \<open>Run\<close> closed when it failed.
\<close>

definition lane_move :: "bool \<Rightarrow> bool \<Rightarrow> lane \<Rightarrow> lane \<Rightarrow> bool" where
  "lane_move ctx ctx' l l' \<longleftrightarrow> l' = l \<or> ctx' \<and> l' = l\<lparr>laneOpen := False\<rparr> \<or> closeListenerByContext ctx l = Some l' \<or>
     acceptTop ctx l = Some l' \<or> acceptErr ctx l = Some l' \<or> acceptConn l = Some l' \<or> sleepOver l = Some l'"

lemma lane_move_ok:
  assumes "lane_move ctx ctx' l l'"
  shows "laneCloser l \<or> \<not> laneOpen l \<Longrightarrow> laneCloser l' \<or> \<not> laneOpen l'"
    "\<not> laneOpen l \<Longrightarrow> \<not> laneOpen l'"
    "\<not> ctx \<Longrightarrow> \<not> ctx' \<Longrightarrow> laneOpen l \<and> laneCloser l \<and> laneAccept l \<noteq> AcceptDone \<Longrightarrow>
      laneOpen l' \<and> laneCloser l' \<and> laneAccept l' \<noteq> AcceptDone"
  using assms by (auto simp: lane_move_def lane_defs split: if_splits)

lemma onLane_moves:
  assumes "onLane k f s = Some s'" "l' \<in> set (pLanes s')"
  shows "l' \<in> set (pLanes s) \<or> (\<exists>l\<in>set (pLanes s). f l = Some l')"
proof -
  from assms(1) obtain l where l: "k < length (pLanes s)" "f (pLanes s ! k) = Some l"
    "s' = s\<lparr>pLanes := (pLanes s)[k := l]\<rparr>" by (auto simp: onLane_Some)
  with assms(2) have "l' = l \<or> l' \<in> set (pLanes s)" using set_update_subset_insert [of "pLanes s" k l] by auto
  with l show ?thesis using nth_mem [OF l(1)] by blast
qed

lemma openEndpoint_moves:
  "l' \<in> set (pLanes (openEndpoint p ep addr routed next x s)) \<Longrightarrow>
     (\<exists>l\<in>set (pLanes s). lane_move ctx (pCtx (openEndpoint p ep addr routed next x s)) l l') \<or> (\<exists>m. l' = newLane m)"
  by (auto simp: openEndpoint_def lane_move_def split: option.splits)

lemma live_step_moves:
  assumes "live_step p l s = Some s'" "l' \<in> set (pLanes s')"
  shows "(\<exists>l\<in>set (pLanes s). lane_move (pCtx s) (pCtx s') l l') \<or> (\<exists>m. l' = newLane m) \<and> (\<exists>x. l = Opens x)"
proof (cases l)
  case (Opens x)
  with assms show ?thesis by (auto split: run_pc.splits dest: openEndpoint_moves)
next
  case (AcceptsConn k)
  with assms obtain v where "onLane k acceptConn s = Some v" "pLanes s' = pLanes v"
    by (auto split: option.splits)
  with onLane_moves [of k acceptConn s v l'] assms(2) show ?thesis by (auto simp: lane_move_def)
next
  case (CloserWakes k)
  with assms onLane_moves [of k _ s s' l'] show ?thesis by (auto simp: lane_move_def)
next
  case (AcceptChecks k)
  with assms onLane_moves [of k _ s s' l'] show ?thesis by (auto simp: lane_move_def)
next
  case (AcceptError k)
  with assms onLane_moves [of k _ s s' l'] show ?thesis by (fastforce simp: lane_move_def split: if_splits)
next
  case (AcceptClosed k)
  with assms onLane_moves [of k _ s s' l'] show ?thesis by (fastforce simp: lane_move_def split: if_splits)
next
  case (SleepOver k)
  with assms onLane_moves [of k _ s s' l'] show ?thesis by (auto simp: lane_move_def)
qed (use assms in \<open>auto simp: lane_move_def split: if_splits loop_pc.splits run_pc.splits\<close>)

lemma ctx_stays: "live_step p l s = Some s' \<Longrightarrow> pCtx s \<Longrightarrow> pCtx s'"
  by (cases l)
    (auto simp: onLane_Some openEndpoint_def split: if_splits loop_pc.splits run_pc.splits option.splits)

lemma closing_step:
  assumes "live_step p l s = Some s'" "closing s"
  shows "closing s'"
proof -
  have "laneCloser l' \<or> \<not> laneOpen l'" if "l' \<in> set (pLanes s')" for l'
    using live_step_moves [OF assms(1) that]
  proof (elim disjE conjE bexE exE)
    fix l0 assume "l0 \<in> set (pLanes s)" "lane_move (pCtx s) (pCtx s') l0 l'"
    with assms(2) show ?thesis unfolding closing_def using lane_move_ok(1) by blast
  qed (simp add: newLane_def)
  then show ?thesis using ctx_stays [OF assms(1)] assms(2) by (simp add: closing_def)
qed

text \<open>As long as the process has not returned, the turn that its state asks for is enabled.\<close>

lemma find_lane_None: "find (\<lambda>k. P (ls ! k)) [0..<length ls] = None \<longleftrightarrow> (\<forall>l\<in>set ls. \<not> P l)"
  by (auto simp: find_None_iff all_set_conv_all_nth)

lemma lanes_turn_enabled:
  assumes "closing s" "pRun s = RunWaiting"
  shows "\<exists>l. turn_of l = Some (lanes_turn (pLanes s)) \<and> live_step p l s \<noteq> None"
proof (cases "find (\<lambda>k. laneCloser (pLanes s ! k)) [0..<length (pLanes s)]")
  case (Some k)
  then have "k < length (pLanes s)" "laneCloser (pLanes s ! k)" by (auto simp: find_Some_iff)
  with assms Some show ?thesis
    by (intro exI [of _ "CloserWakes k"]) (simp add: lanes_turn_def closing_def onLane_def lane_defs)
next
  case none: None
  show ?thesis
  proof (cases "find (\<lambda>k. laneAccept (pLanes s ! k) \<noteq> AcceptDone) [0..<length (pLanes s)]")
    case (Some k)
    then have k: "k < length (pLanes s)" "laneAccept (pLanes s ! k) \<noteq> AcceptDone" by (auto simp: find_Some_iff)
    moreover have "\<not> laneOpen (pLanes s ! k)"
      using none k(1) assms(1) by (auto simp: find_lane_None closing_def)
    ultimately have "\<exists>l\<in>{AcceptChecks k, AcceptClosed k, SleepOver k}. live_step p l s \<noteq> None"
      by (cases "laneAccept (pLanes s ! k)") (auto simp: onLane_def lane_defs)
    moreover have "lanes_turn (pLanes s) = TAccept k" using Some none by (simp add: lanes_turn_def)
    ultimately show ?thesis by (metis (no_types) insertE singletonD turn_of.simps(5-7))
  next
    case None
    have "lanes_turn (pLanes s) = TRun" using none None by (simp add: lanes_turn_def)
    moreover have "\<forall>l\<in>set (pLanes s). laneAccept l = AcceptDone \<and> \<not> laneCloser l"
      using none None find_lane_None [of laneCloser "pLanes s"]
        find_lane_None [of "\<lambda>l. laneAccept l \<noteq> AcceptDone" "pLanes s"] by blast
    ultimately show ?thesis using assms(2) by (intro exI [of _ RunReturns]) simp
  qed
qed

lemma proc_turn_enabled:
  assumes "closing s"
  shows "\<exists>l. turn_of l = Some (proc_turn s) \<and> live_step p l s \<noteq> None"
proof (cases "pLoop s")
  case LoopStart
  then show ?thesis by (intro exI [of _ "LoopBegins undefined"]) (simp add: proc_turn_def)
next
  case (LoopDone x)
  show ?thesis
  proof (cases "pRun s")
    case RunWaiting
    with LoopDone lanes_turn_enabled [OF assms] show ?thesis by (simp add: proc_turn_def)
  next
    case (RunDone y)
    with LoopDone show ?thesis by (intro exI [of _ WaitReturns]) (simp add: proc_turn_def)
  qed (use LoopDone in \<open>auto intro!: exI [of _ "Opens None"] simp: proc_turn_def\<close>)
qed (use assms in \<open>auto intro!: exI [of _ "LoopWakes CtxDone"] simp: proc_turn_def closing_def\<close>)

interpretation shutdown: progress "proc_step p" turn_of closing "\<lambda>s. pExit s \<noteq> None" proc_rank proc_turn
  for p :: "'s proxy"
proof
  fix s l s'
  assume "closing s" "proc_step p l s = Some s'"
  then show "closing s'" by (auto simp: proc_step_def closing_step split: if_splits)
next
  fix s :: process
  assume "closing s" "\<not> pExit s \<noteq> None"
  then show "\<exists>l. turn_of l = Some (proc_turn s) \<and> proc_step p l s \<noteq> None"
    using proc_turn_enabled [of s p] by (simp add: proc_step_def)
next
  fix s l s'
  assume a: "closing s" "\<not> pExit s \<noteq> None" "proc_step p l s = Some s'"
  then have "pExit s' = None \<Longrightarrow> proc_rank s' < proc_rank s \<or>
      proc_rank s' = proc_rank s \<and> proc_turn s' = proc_turn s \<and> turn_of l \<noteq> Some (proc_turn s)"
    by (intro live_step_rank [of p]) (auto simp: proc_step_def closing_def)
  then show "pExit s' \<noteq> None \<or> proc_rank s' < proc_rank s \<or>
      proc_rank s' = proc_rank s \<and> proc_turn s' = proc_turn s \<and> turn_of l \<noteq> Some (proc_turn s)" by blast
qed

subsection \<open>The goroutine and the function\<close>

text \<open>The goroutine started by itself implements the loops of \<open>Resolver\<close> over their events.\<close>

fun loop_outcome :: "loop_pc \<Rightarrow> outcome" where
  "loop_outcome (LoopDone x) = Returned x"
| "loop_outcome _ = Waiting"

definition loop_final :: "loop_result \<Rightarrow> resolver" where
  "loop_final res = (case lrOutcome res of Waiting \<Rightarrow> lrResolver res | Returned _ \<Rightarrow> closeSentinel (lrResolver res))"

lemma loop_run_done [simp]: "loop_run (LoopDone x, r) evs = (LoopDone x, r)"
  by (cases evs) simp_all

lemma update_loop_refined:
  "loop_run (loopTop n err r) evs = (pc, r') \<Longrightarrow>
     loop_outcome pc = lrOutcome (update_loop n err r evs) \<and> r' = loop_final (update_loop n err r evs)"
proof (induction evs arbitrary: n err r rule: length_induct)
  case (1 evs)
  show ?case
  proof (cases "n \<le> retryOnMasterResolveFail r")
    case False
    with "1.prems" show ?thesis by (auto simp: loopTop_def update_loop_over loop_final_def)
  next
    case True
    then have top: "loop_run (Ticking n err, r) evs = (pc, r')" using "1.prems" by (simp add: loopTop_def)
    from True show ?thesis
    proof (cases rule: update_loop_cases [where evs = evs and err = err])
      case (ok w evs1 r1)
      with "1.IH" [rule_format, of evs1 0 None r1] top show ?thesis by simp
    next
      case (sleeps w evs1 x r1)
      with top show ?thesis by (cases evs1) (auto simp: loop_final_def)
    next
      case (again w w' evs2 x r1)
      with "1.IH" [rule_format, of evs2 "loop_count n x" "Some x" r1] top show ?thesis
        by (simp add: loop_count_def Let_def loop_final_def cong: outcome.case_cong)
    qed (use top in \<open>auto simp: loop_final_def\<close>)
  qed
qed

lemma initial_loop_refined:
  "loop_run (initialAttempt n w r) evs = (pc, r') \<Longrightarrow>
     \<exists>evs1 evs2. evs = evs1 @ evs2 \<and>
       (case lrOutcome (initialMasterAddressResolve_loop n r w evs1) of
          Waiting \<Rightarrow> evs2 = [] \<and> loop_outcome pc = Waiting \<and> r' = lrResolver (initialMasterAddressResolve_loop n r w evs1)
        | Returned (Some e) \<Rightarrow> pc = LoopDone (Some e) \<and>
            r' = closeSentinel ((lrResolver (initialMasterAddressResolve_loop n r w evs1))\<lparr>initialDone := True\<rparr>)
        | Returned None \<Rightarrow>
            loop_run (loopTop 0 None ((lrResolver (initialMasterAddressResolve_loop n r w evs1))\<lparr>initialDone := True\<rparr>)) evs2 = (pc, r'))"
  (is "_ \<Longrightarrow> \<exists>evs1 evs2. ?P n w r evs evs1 evs2")
proof (induction evs arbitrary: n w r)
  case Nil
  then have "?P n w r [] [] []"
    by (auto simp: initialAttempt_def initialMasterAddressResolve_loop.simps [of n] Let_def split: prod.splits option.splits if_splits)
  then show ?case by blast
next
  case (Cons ev evs)
  obtain e r1 where u: "updateMasterAddress w r = (e, r1)" by (cases "updateMasterAddress w r")
  show ?case
  proof (cases "e = None \<or> (\<not> NotReady (the e) \<and> retryOnMasterResolveFail r1 < n + 1)")
    case True
    with Cons.prems u have "?P n w r (ev # evs) [] (ev # evs)"
      by (auto simp: initialAttempt_def initialMasterAddressResolve_loop.simps [of n] Let_def split: option.splits)
    then show ?thesis by blast
  next
    case False
    then obtain x where x: "e = Some x" "NotReady x \<or> n + 1 \<le> retryOnMasterResolveFail r1" by auto
    let ?n = "if NotReady x then n else n + 1"
    have i: "initialAttempt n w r = (InitialWait ?n x, r1)" using u x by (auto simp: initialAttempt_def)
    show ?thesis
    proof (cases ev)
      case CtxDone
      with Cons.prems u x i have "?P n w r (ev # evs) [ev] evs"
        by (auto simp: initialMasterAddressResolve_loop.simps [of n] Let_def)
      then show ?thesis by (metis append_Cons append_Nil)
    next
      case (Fired w')
      with Cons.prems i have "loop_run (initialAttempt ?n w' r1) evs = (pc, r')" by simp
      from Cons.IH [OF this] obtain evs1 evs2 where e: "?P ?n w' r1 evs evs1 evs2" by blast
      have eqs: "lrOutcome (initialMasterAddressResolve_loop n r w (ev # evs1)) = lrOutcome (initialMasterAddressResolve_loop ?n r1 w' evs1)"
        "lrResolver (initialMasterAddressResolve_loop n r w (ev # evs1)) = lrResolver (initialMasterAddressResolve_loop ?n r1 w' evs1)"
        using u x Fired by (auto simp: initialMasterAddressResolve_loop.simps [of n] Let_def)
      have "?P n w r (ev # evs) (ev # evs1) evs2" using e by (simp only: eqs append_Cons)
      then show ?thesis by blast
    qed
  qed
qed

subsection \<open>The invariant of the process\<close>

text \<open>The steps of the update loop are actions on the resolver.\<close>

lemma running_moves:
  assumes "running r0 W r" "w \<in> W"
  shows "running r0 W (snd (loopTop n err r))" "running r0 W (snd (initialAttempt n w r))"
    "running r0 W (snd (updateMasterAddress w r))" "running r0 W (closeSentinel r)"
    "running r0 W (r\<lparr>initialDone := True\<rparr>)" "running r0 W (RefreshAddresses w r)" "running r0 W (snd (ReplicaAddress r))"
proof -
  have step: "running r0 W q \<Longrightarrow> running r0 W (snd (updateMasterAddress w q))"
    "running r0 W q \<Longrightarrow> running r0 W (closeSentinel q)"
    "running r0 W q \<Longrightarrow> running r0 W (q\<lparr>initialDone := True\<rparr>)" for q
    using running_act [of r0 W q "Attempt w"] running_act [of r0 W q CloseSentinel] running_act [of r0 W q CloseInitial]
      assms(2) by simp_all
  then have top: "running r0 W q \<Longrightarrow> running r0 W (snd (loopTop n err q))" for q n err
    by (simp add: loopTop_def)
  show "running r0 W (snd (loopTop n err r))" "running r0 W (snd (updateMasterAddress w r))"
    "running r0 W (closeSentinel r)" "running r0 W (r\<lparr>initialDone := True\<rparr>)"
    using top step assms(1) by blast+
  obtain e r1 where u: "updateMasterAddress w r = (e, r1)" by (cases "updateMasterAddress w r")
  then have "running r0 W r1" using step(1) [OF assms(1)] by simp
  then show "running r0 W (snd (initialAttempt n w r))"
    using u top step by (cases e) (auto simp: initialAttempt_def)
  show "running r0 W (RefreshAddresses w r)" "running r0 W (snd (ReplicaAddress r))"
    using running_act [OF assms(1), of "Refresh w"] running_act [OF assms(1), of PickReplica] assms(2) by simp_all
qed

lemma running_loop_step:
  assumes "loop_step pc ev r = Some c" "running r0 W r" "\<And>w. ev = Fired w \<Longrightarrow> w \<in> W"
  shows "running r0 W (snd c)"
proof -
  have free: "running r0 W (closeSentinel q)" "running r0 W (q\<lparr>initialDone := True\<rparr>)" if "running r0 W q" for q
    using running_act [OF that, of CloseSentinel] running_act [OF that, of CloseInitial] by simp_all
  show ?thesis
    using assms(1)
  proof (cases "(pc, ev, r)" rule: loop_step.cases)
    case (5 n err w q)
    obtain e r1 where u: "updateMasterAddress w r = (e, r1)" by (cases "updateMasterAddress w r")
    then have "running r0 W r1" using running_moves(3) [OF assms(2), of w] assms(3) 5 by simp
    with 5 assms(1,3) u show ?thesis by (cases e) (auto intro: running_moves(1))
  qed (use assms free in \<open>auto intro: running_moves\<close>)
qed

lemma resolver_step:
  assumes "live_step p l s = Some s'" "running r0 W (pResolver s)" "label_worlds l \<subseteq> W"
  shows "running r0 W (pResolver s')"
proof (cases l)
  case (LoopBegins w)
  with assms show ?thesis by (auto intro: running_moves split: if_splits)
next
  case (LoopWakes ev)
  with assms(1) obtain c where "loop_step (pLoop s) ev (pResolver s) = Some c" "pResolver s' = snd c"
    by (auto split: if_splits)
  moreover have "w \<in> W" if "ev = Fired w" for w using that assms(3) LoopWakes by simp
  ultimately show ?thesis using running_loop_step [of "pLoop s" ev "pResolver s" c r0 W] assms(2) by simp
next
  case (SessionRefreshes w)
  with assms show ?thesis by (auto intro: running_moves split: if_splits)
next
  case SessionPicks
  with assms running_act [OF assms(2), of PickReplica] show ?thesis by (auto split: if_splits)
qed (use assms in \<open>auto simp: onLane_Some openEndpoint_def
    split: if_splits loop_pc.splits run_pc.splits option.splits\<close>)

lemma server_step:
  assumes "live_step p l s = Some s'" "serving (sem p) (pServer s)"
  shows "serving (sem p) (pServer s')"
proof (cases l)
  case (AcceptsConn k)
  with assms(1) obtain v ep where "listen_step (sem p) (Accepted ep) (pServer s) = Some v" "pServer s' = v"
    by (auto simp del: listen_step.simps split: option.splits)
  with serving.step [OF assms(2)] show ?thesis by blast
next
  case (SessionEnds k)
  with assms(1) serving.step [OF assms(2)] show ?thesis by (auto simp del: listen_step.simps)
qed (use assms in \<open>auto simp: onLane_Some openEndpoint_def
    split: if_splits loop_pc.splits run_pc.splits option.splits\<close>)

text \<open>The context of the group is done for a reason, and the first error is that of a goroutine.\<close>

definition group_ok :: "process \<Rightarrow> bool" where
  "group_ok s \<longleftrightarrow> (pCtx s \<longleftrightarrow> pSignalled s \<or> pFirstErr s \<noteq> None) \<and>
     (case pFirstErr s of
        None \<Rightarrow> (\<forall>x. pLoop s \<noteq> LoopDone (Some x)) \<and> (\<forall>x. pRun s \<noteq> RunDone (Some x))
      | Some (ResolveFailed x) \<Rightarrow> pLoop s = LoopDone (Some x)
      | Some (ListenFailed x) \<Rightarrow> pRun s = RunDone (Some x))"

lemma group_loopMoves:
  assumes "group_ok s" "\<And>x. pLoop s \<noteq> LoopDone x"
  shows "group_ok (loopMoves c s)"
proof (cases "\<exists>x. fst c = LoopDone (Some x)")
  case True
  with assms show ?thesis
    by (auto simp: group_ok_def loopMoves_def groupDone_def Let_def split: option.splits proc_error.splits)
next
  case False
  then have "loopMoves c s = s\<lparr>pLoop := fst c, pResolver := snd c\<rparr>"
    by (auto simp: loopMoves_def groupDone_def Let_def split: loop_pc.splits option.splits)
  with False assms show ?thesis
    by (auto simp: group_ok_def split: option.splits proc_error.splits)
qed

lemma group_openEndpoint:
  assumes "group_ok s" "\<And>x. pRun s \<noteq> RunDone x" "\<And>x. next \<noteq> RunDone x"
  shows "group_ok (openEndpoint p ep addr routed next x s)"
  using assms by (auto simp: group_ok_def openEndpoint_def groupDone_def split: option.splits proc_error.splits)

lemma group_frame:
  assumes "group_ok s" "pLoop s' = pLoop s" "pRun s' = pRun s" "pFirstErr s' = pFirstErr s"
    "pSignalled s' = pSignalled s" "pCtx s' = pCtx s"
  shows "group_ok s'"
  using assms by (simp only: group_ok_def)

lemma group_step:
  assumes "live_step p l s = Some s'" "group_ok s"
  shows "group_ok s'"
proof (cases l)
  case Signal
  with assms show ?thesis by (auto simp: group_ok_def split: option.splits proc_error.splits)
next
  case (LoopBegins w)
  with assms show ?thesis by (auto intro: group_loopMoves split: if_splits)
next
  case (LoopWakes ev)
  with assms(1) obtain c where c: "loop_step (pLoop s) ev (pResolver s) = Some c" "s' = loopMoves c s"
    by (auto split: if_splits)
  then have "pLoop s \<noteq> LoopDone x" for x by auto
  with c(2) assms(2) show ?thesis by (simp add: group_loopMoves)
next
  case (Opens x)
  with assms show ?thesis by (auto intro: group_openEndpoint split: run_pc.splits)
next
  case RunReturns
  with assms show ?thesis by (auto simp: group_ok_def split: if_splits option.splits proc_error.splits)
qed (use assms in \<open>auto simp: onLane_Some simp del: listen_step.simps
    split: if_splits loop_pc.splits run_pc.splits option.splits elim!: group_frame\<close>)

text \<open>
  Endpoints are open and served until the context is done; \<open>Run\<close> returns only then, and with
  all listeners closed.
\<close>

definition lanes_ok :: "process \<Rightarrow> bool" where
  "lanes_ok s \<longleftrightarrow>
     (\<forall>l\<in>set (pLanes s). (laneCloser l \<or> \<not> laneOpen l) \<and>
        (\<not> pCtx s \<longrightarrow> laneOpen l \<and> laneCloser l \<and> laneAccept l \<noteq> AcceptDone))"

lemma quiet_step:
  "live_step p l s = Some s' \<Longrightarrow> (\<forall>x. l \<noteq> Opens x) \<Longrightarrow> l \<noteq> RunReturns \<Longrightarrow>
     pRun s' = pRun s \<and> length (pLanes s') = length (pLanes s)"
  by (cases l) (auto simp: onLane_Some split: if_splits loop_pc.splits run_pc.splits option.splits)

definition run_ok :: "'s proxy \<Rightarrow> process \<Rightarrow> bool" where
  "run_ok p s \<longleftrightarrow>
     (case pRun s of
        OpeningMaster \<Rightarrow> True
      | OpeningReplica \<Rightarrow> localAddr p = None \<or> pLanes s \<noteq> []
      | RunWaiting \<Rightarrow> pLanes s \<noteq> []
      | RunDone _ \<Rightarrow> pCtx s \<and> (\<forall>l\<in>set (pLanes s). \<not> laneOpen l))"

lemma run_openEndpoint:
  "run_ok p s \<Longrightarrow> pRun s = OpeningMaster \<Longrightarrow> run_ok p (openEndpoint p ep (localAddr p) routed OpeningReplica x s)"
  "run_ok p s \<Longrightarrow> pRun s = OpeningReplica \<Longrightarrow> localAddr p \<noteq> None \<or> replicaAddr p \<noteq> None \<Longrightarrow>
     run_ok p (openEndpoint p ep (replicaAddr p) routed RunWaiting x s)"
  by (auto simp: run_ok_def openEndpoint_def split: option.splits)

lemma run_step:
  assumes "live_step p l s = Some s'" "run_ok p s" "lanes_ok s" "localAddr p \<noteq> None \<or> replicaAddr p \<noteq> None"
  shows "run_ok p s'"
proof (cases "(\<exists>x. l = Opens x) \<or> l = RunReturns")
  case True
  then show ?thesis
  proof (elim disjE exE)
    fix x assume "l = Opens x"
    with assms show ?thesis by (auto intro: run_openEndpoint split: run_pc.splits)
  next
    assume "l = RunReturns"
    with assms(1) have r: "pRun s = RunWaiting" "s' = s\<lparr>pRun := RunDone None\<rparr>"
      "\<And>l. l \<in> set (pLanes s) \<Longrightarrow> laneAccept l = AcceptDone \<and> \<not> laneCloser l" by (auto split: if_splits)
    with assms(2,3) show ?thesis by (auto simp: run_ok_def lanes_ok_def neq_Nil_conv)
  qed
next
  case False
  have q: "pRun s' = pRun s" "pLanes s' = [] \<longleftrightarrow> pLanes s = []"
    using quiet_step [OF assms(1)] False by auto
  have "\<not> laneOpen l'" if "l' \<in> set (pLanes s')" "\<forall>l\<in>set (pLanes s). \<not> laneOpen l" for l'
    using live_step_moves [OF assms(1) that(1)] False that(2) lane_move_ok(2) by blast
  with q assms(2) ctx_stays [OF assms(1)] show ?thesis
    unfolding run_ok_def by (auto split: run_pc.splits)
qed

lemma lanes_step:
  assumes "live_step p l s = Some s'" "lanes_ok s"
  shows "lanes_ok s'"
  unfolding lanes_ok_def
proof
  fix l' assume "l' \<in> set (pLanes s')"
  from live_step_moves [OF assms(1) this]
  show "(laneCloser l' \<or> \<not> laneOpen l') \<and>
      (\<not> pCtx s' \<longrightarrow> laneOpen l' \<and> laneCloser l' \<and> laneAccept l' \<noteq> AcceptDone)"
  proof (elim disjE conjE bexE exE)
    fix l0 assume l0: "l0 \<in> set (pLanes s)" "lane_move (pCtx s) (pCtx s') l0 l'"
    with lane_move_ok(1,3) [OF l0(2)] ctx_stays [OF assms(1)] assms(2) show ?thesis
      unfolding lanes_ok_def by blast
  qed (simp add: newLane_def)
qed

text \<open>Behind the initial resolve the channel is closed, and at the end the sentinel client too.\<close>

fun loop_ok :: "loop_pc \<Rightarrow> resolver \<Rightarrow> bool" where
  "loop_ok (Ticking n err) r \<longleftrightarrow> initialDone r"
| "loop_ok (Backoff n e) r \<longleftrightarrow> initialDone r"
| "loop_ok (LoopDone x) r \<longleftrightarrow> initialDone r \<and> scClosed (sentinel r)"
| "loop_ok _ r \<longleftrightarrow> True"

lemma update_keeps: "initialDone (snd (updateMasterAddress w r)) = initialDone r" "sentinel (snd (updateMasterAddress w r)) = sentinel r"
  using fixed_fields(2,8) [OF updateMasterAddress_serves(1)] by (metis prod.collapse)+

lemma refresh_keeps: "initialDone (RefreshAddresses w r) = initialDone r" "sentinel (RefreshAddresses w r) = sentinel r"
  by (cases rule: RefreshAddresses_cases [of w r]; simp add: update_keeps)+

lemma pick_keeps: "initialDone (snd (ReplicaAddress r)) = initialDone r" "sentinel (snd (ReplicaAddress r)) = sentinel r"
  using ReplicaAddress_frame [of r "fst (ReplicaAddress r)" "snd (ReplicaAddress r)"] by auto

lemma loop_ok_moves:
  "initialDone r \<Longrightarrow> loop_ok (fst (loopTop n err r)) (snd (loopTop n err r))"
  "loop_ok (fst (initialAttempt n w r)) (snd (initialAttempt n w r))"
  by (auto simp: loopTop_def initialAttempt_def closeSentinel_def split: prod.splits option.splits)

lemma loop_ok_step: "loop_step pc ev r = Some c \<Longrightarrow> loop_ok pc r \<Longrightarrow> loop_ok (fst c) (snd c)"
proof (cases "(pc, ev, r)" rule: loop_step.cases)
  case (5 n err w q)
  moreover assume "loop_step pc ev r = Some c" "loop_ok pc r"
  ultimately show ?thesis using update_keeps(1) [of w r]
    by (cases "updateMasterAddress w r") (auto intro: loop_ok_moves split: option.splits)
qed (auto simp: closeSentinel_def intro: loop_ok_moves)

lemma loop_frame:
  "loop_ok pc r \<Longrightarrow> initialDone r' = initialDone r \<Longrightarrow> sentinel r' = sentinel r \<Longrightarrow> loop_ok pc r'"
  by (cases pc) simp_all

lemma loop_ok_live:
  assumes "live_step p l s = Some s'" "loop_ok (pLoop s) (pResolver s)"
  shows "loop_ok (pLoop s') (pResolver s')"
proof (cases l)
  case (LoopWakes ev)
  with assms(1) obtain c where "loop_step (pLoop s) ev (pResolver s) = Some c" "s' = loopMoves c s"
    by (auto split: if_splits)
  with loop_ok_step assms(2) show ?thesis by fastforce
next
  case (SessionRefreshes w)
  with assms show ?thesis by (auto simp: refresh_keeps elim!: loop_frame split: if_splits)
next
  case SessionPicks
  with assms show ?thesis by (auto simp: pick_keeps elim!: loop_frame split: if_splits)
qed (use assms in \<open>auto simp: onLane_Some openEndpoint_def loop_ok_moves simp del: listen_step.simps
    split: if_splits loop_pc.splits run_pc.splits option.splits\<close>)

definition proc_ok :: "'s proxy \<Rightarrow> process \<Rightarrow> bool" where
  "proc_ok p s \<longleftrightarrow> serving (sem p) (pServer s) \<and> group_ok s \<and> lanes_ok s \<and> run_ok p s \<and> loop_ok (pLoop s) (pResolver s) \<and>
     (\<forall>x. pExit s = Some x \<longrightarrow> x = pFirstErr s \<and> (\<exists>y. pLoop s = LoopDone y) \<and> (\<exists>y. pRun s = RunDone y))"

lemma exit_step:
  assumes "live_step p l s = Some s'" "pExit s = None" "pExit s' = Some x"
  shows "x = pFirstErr s' \<and> (\<exists>y. pLoop s' = LoopDone y) \<and> (\<exists>y. pRun s' = RunDone y)"
  using assms
  by (cases l) (auto simp: onLane_Some openEndpoint_def simp del: listen_step.simps
      split: if_splits loop_pc.splits run_pc.splits option.splits)

lemma proc_init_ok: "proc_ok p (proc_init r)"
  by (simp add: proc_ok_def proc_init_def group_ok_def lanes_ok_def run_ok_def serving.idle)

lemma proc_step_ok:
  assumes "proc_step p l s = Some s'" "proc_ok p s" "localAddr p \<noteq> None \<or> replicaAddr p \<noteq> None"
  shows "proc_ok p s'"
proof (cases "pExit s = None")
  case True
  then have l: "live_step p l s = Some s'" using assms(1) by (simp add: proc_step_def)
  from assms(2) [unfolded proc_ok_def] server_step [OF l] group_step [OF l] lanes_step [OF l] run_step [OF l]
    loop_ok_live [OF l] exit_step [OF l True] assms(3)
  show ?thesis unfolding proc_ok_def by blast
next
  case False
  with assms show ?thesis by (auto simp: proc_step_def split: if_splits)
qed

lemma proc_reach_ok:
  assumes "proc_reach p r0 W s" "localAddr p \<noteq> None \<or> replicaAddr p \<noteq> None"
  shows "proc_ok p s"
  using assms(1)
proof (induction rule: proc_reach.induct)
  case (step s l s')
  with proc_step_ok [OF step.hyps(2) _ assms(2)] show ?case by blast
qed (rule proc_init_ok)

lemma proc_reach_running:
  assumes "proc_reach p r0 W s" "NewRedisMasterResolver cfg = Inr r0" "\<forall>w\<in>W. go_world w"
  shows "running r0 W (pResolver s)"
  using assms(1)
proof (induction rule: proc_reach.induct)
  case start
  have "running r0 W r0" unfolding running_def using assms(2,3) reaches.start [of r0] by fastforce
  then show ?case by (simp add: proc_init_def)
next
  case (step s l s')
  then have "live_step p l s = Some s'" by (simp add: proc_step_def split: if_splits)
  from resolver_step [OF this step.IH step.hyps(3)] show ?case .
qed

lemma fair_run_reach:
  assumes "fair_run (proc_step p) k \<sigma> lab" "\<sigma> 0 = proc_init r0"
  shows "proc_reach p r0 UNIV (\<sigma> i)"
proof (induction i)
  case (Suc i)
  have "proc_step p (lab i) (\<sigma> i) = Some (\<sigma> (Suc i))" using assms(1) by (simp add: fair_run_def)
  with Suc show ?case by (auto intro: proc_reach.step)
qed (simp add: assms(2) proc_reach.start)

subsection \<open>Finite runs\<close>

fun run_labels :: "'s proxy \<Rightarrow> label list \<Rightarrow> process \<Rightarrow> process option" where
  "run_labels p [] s = Some s"
| "run_labels p (l # ls) s = (case proc_step p l s of None \<Rightarrow> None | Some s' \<Rightarrow> run_labels p ls s')"

lemma run_labels_append:
  "run_labels p (ls @ ls') s = (case run_labels p ls s of None \<Rightarrow> None | Some s' \<Rightarrow> run_labels p ls' s')"
  by (induction ls arbitrary: s) (simp_all split: option.splits)

text \<open>A run that has come to its end, followed by nothing, is fair.\<close>

lemma finished_run_fair:
  assumes "run_labels p ls s = Some t" "pExit t \<noteq> None"
  obtains \<sigma> lab where "fair_run (proc_step p) turn_of \<sigma> lab" "\<sigma> 0 = s"
    "\<And>i. i \<le> length ls \<Longrightarrow> run_labels p (take i ls) s = Some (\<sigma> i)"
proof
  let ?\<sigma> = "\<lambda>i. the (run_labels p (take i ls) s)" and ?lab = "\<lambda>i. if i < length ls then ls ! i else Nothing"
  have def: "\<exists>u. run_labels p (take i ls) s = Some u" for i
    using assms(1) run_labels_append [of p "take i ls" "drop i ls" s] by (auto split: option.splits)
  have "proc_step p (?lab i) (?\<sigma> i) = Some (?\<sigma> (Suc i))" for i
  proof (cases "i < length ls")
    case True
    with def [of i] def [of "Suc i"] show ?thesis
      by (auto simp: take_Suc_conv_app_nth run_labels_append split: option.splits)
  next
    case False
    with assms(1) show ?thesis by (simp add: proc_step_def)
  qed
  moreover have "\<exists>j\<ge>i. \<forall>l. turn_of l \<noteq> None \<longrightarrow> proc_step p l (?\<sigma> j) = None" for i
  proof (intro exI conjI allI impI)
    show "i \<le> i + length ls" by simp
    fix l assume "turn_of l \<noteq> None"
    then have "l \<noteq> Nothing" by auto
    with assms show "proc_step p l (?\<sigma> (i + length ls)) = None" by (auto simp: proc_step_def)
  qed
  ultimately show "fair_run (proc_step p) turn_of ?\<sigma> ?lab"
    unfolding fair_run_def by (metis (no_types, lifting) option.distinct(1))
  show "?\<sigma> 0 = s" by simp
  show "run_labels p (take i ls) s = Some (?\<sigma> i)" for i using def [of i] by auto
qed

lemma run_labels_reach:
  "run_labels p ls s = Some t \<Longrightarrow> proc_reach p r0 W s \<Longrightarrow> (\<forall>l\<in>set ls. label_worlds l \<subseteq> W) \<Longrightarrow> proc_reach p r0 W t"
  by (induction ls arbitrary: s) (auto split: option.splits intro: proc_reach.step)

text \<open>A complete life: both endpoints open, a client, a signal, and the end.\<close>

definition sample_life :: "label list" where
  "sample_life = [Opens None, Opens None, LoopBegins good_world, AcceptChecks 0, AcceptsConn 0, Signal,
     AcceptChecks 0, AcceptChecks 1, LoopWakes CtxDone, CloserWakes 0, CloserWakes 1, RunReturns, WaitReturns]"

lemma sample_begin:
  obtains r where "initialAttempt 0 good_world sample_resolver = (Ticking 0 None, r)" "initialDone r"
proof -
  obtain e r1 where u: "updateMasterAddress good_world sample_resolver = (e, r1)"
    by (cases "updateMasterAddress good_world sample_resolver")
  have "e = None" using updateMasterAddress_serves(3) [OF u] by simp
  moreover have "retryOnMasterResolveFail r1 = 3"
    using fixed_fields(6) [OF updateMasterAddress_serves(1) [OF u]] by simp
  ultimately show thesis using that u by (simp add: initialAttempt_def loopTop_def)
qed

lemma sample_addrs: "\<exists>a. localAddr sample_proxy = Some a" "\<exists>a. replicaAddr sample_proxy = Some a"
  using New_proxy_fields(10,11) [OF sample_proxy_new] by (simp_all add: both_cfg_def sample_cfg_def strSet_def)

lemma sample_life_ends:
  obtains s u where "run_labels sample_proxy sample_life (proc_init sample_resolver) = Some s" "pExit s = Some None"
    "run_labels sample_proxy (take 6 sample_life) (proc_init sample_resolver) = Some u" "pSignalled u" "pExit u = None"
proof -
  obtain r where r: "initialAttempt 0 good_world sample_resolver = (Ticking 0 None, r)" by (rule sample_begin)
  obtain a b where ab: "localAddr sample_proxy = Some a" "replicaAddr sample_proxy = Some b" using sample_addrs by blast
  note life = sample_life_def proc_init_def proc_step_def r ab openEndpoint_def newLane_def onLane_def lane_defs
    loopMoves_def groupDone_def idle_server_def
  have "\<exists>s. run_labels sample_proxy sample_life (proc_init sample_resolver) = Some s \<and> pExit s = Some None"
    by (simp add: life)
  moreover have "\<exists>u. run_labels sample_proxy (take 6 sample_life) (proc_init sample_resolver) = Some u \<and>
      pSignalled u \<and> pExit u = None" by (simp add: life)
  ultimately show thesis using that by blast
qed

text \<open>The two steps in which the endpoints are opened do what \<open>Run\<close> does up to its wait.\<close>

lemma opening_is_Run:
  fixes listen :: "tcpAddr \<Rightarrow> io_error option" and p :: "'s proxy"
  defines "x1 \<equiv> Option.bind (localAddr p) listen" and "x2 \<equiv> Option.bind (replicaAddr p) listen"
  shows "case Run p listen of
      RunListening ls \<Rightarrow> \<exists>s. run_labels p [Opens x1, Opens x2] (proc_init r) = Some s \<and> pRun s = RunWaiting \<and>
        pLanes s = map newLane ls
    | RunFailed e ls \<Rightarrow> \<exists>s. run_labels p (if x1 = None then [Opens x1, Opens x2] else [Opens x1]) (proc_init r) = Some s \<and>
        pRun s = RunDone (Some e) \<and> pFirstErr s = Some (ListenFailed e) \<and>
        pLanes s = map (\<lambda>l. (newLane l)\<lparr>laneOpen := False\<rparr>) ls"
  by (auto simp: Run_def x1_def x2_def proc_init_def proc_step_def openEndpoint_def groupDone_def Let_def
      split: option.splits)

subsection \<open>The retry budget of the process\<close>

text \<open>
  The attempts that the update loop makes in a run of the process: the first, and one with
  every wake-up by a timer except that of the backoff.
\<close>

definition attempted :: "loop_pc \<Rightarrow> label \<Rightarrow> world list" where
  "attempted pc l =
     (case l of
        LoopBegins w \<Rightarrow> [w]
      | LoopWakes (Fired w) \<Rightarrow> (case pc of Backoff _ _ \<Rightarrow> [] | _ \<Rightarrow> [w])
      | _ \<Rightarrow> [])"

fun attempts :: "'s proxy \<Rightarrow> label list \<Rightarrow> process \<Rightarrow> world list" where
  "attempts p [] s = []"
| "attempts p (l # ls) s =
     (case proc_step p l s of None \<Rightarrow> [] | Some s' \<Rightarrow> attempted (pLoop s) l @ attempts p ls s')"

lemma attempts_append:
  "run_labels p ls s = Some t \<Longrightarrow> attempts p (ls @ ls') s = attempts p ls s @ attempts p ls' t"
  by (induction ls arbitrary: s) (simp_all split: option.splits)

text \<open>The attempts since the last one that succeeded, and the hard errors among them.\<close>

definition streak :: "resolver \<Rightarrow> world list \<Rightarrow> world list" where
  "streak r ws = rev (takeWhile (fails r) (rev ws))"

definition spent :: "resolver \<Rightarrow> world list \<Rightarrow> int" where
  "spent r ws = int (length (hard_errors r (streak r ws)))"

lemma streak_simps [simp]:
  "streak r [] = []" "streak r (ws @ [w]) = (if fails r w then streak r ws @ [w] else [])"
  by (simp_all add: streak_def)

lemma hard_errors_snoc [simp]:
  "hard_errors r (ws @ [w]) =
     hard_errors r ws @ (case master_verdict w r of Inl e \<Rightarrow> if NotReady e then [] else [e] | Inr _ \<Rightarrow> [])"
  by (induction ws) (simp_all split: sum.splits)

lemma spent_Nil [simp]: "spent r [] = 0"
  by (simp add: spent_def)

lemma spent_snoc:
  "master_verdict w r = Inr a \<Longrightarrow> spent r (ws @ [w]) = 0"
  "master_verdict w r = Inl e \<Longrightarrow> spent r (ws @ [w]) = loop_count (spent r ws) e"
  "master_verdict w r = Inl e \<Longrightarrow> \<not> NotReady e \<Longrightarrow> last (hard_errors r (streak r (ws @ [w]))) = e"
  by (simp_all add: spent_def fails_def loop_count_def)

text \<open>The part of a resolver on which the verdict of an attempt depends; only the loop's end changes it.\<close>

definition source :: "resolver \<Rightarrow> sentinelClient \<times> string \<times> redisOptions \<times> tlsConfig option \<times> string \<times> string \<times> int \<times> bool" where
  "source r = (sentinel r, configured r)"

lemma source_verdict: "source r = source r' \<Longrightarrow> master_verdict w r = master_verdict w r'"
  by (simp add: source_def configured_def master_verdict_def resolveMasterAddress_def checkRole_def
      split: sum.splits redis_error.splits list.splits option.splits prod.splits)

lemma source_act: "a \<noteq> CloseSentinel \<Longrightarrow> source (act a r) = source r"
proof (cases a)
  case (Attempt w)
  then show ?thesis using configured_act [of a r]
    by (simp add: source_def fixed_fields(2) [OF updateMasterAddress_serves(1) [OF surjective_pairing]])
next
  case (Refresh w)
  then show ?thesis using configured_act [of a r]
    by (auto simp: source_def RefreshAddresses_def fixed_fields(2) [OF updateMasterAddress_serves(1) [OF surjective_pairing]])
next
  case PickReplica
  then show ?thesis using ReplicaAddress_frame [of r "fst (ReplicaAddress r)" "snd (ReplicaAddress r)"]
    by (auto simp: source_def)
qed (simp_all add: source_def)

lemma source_moves [simp]:
  "source (r\<lparr>initialDone := b\<rparr>) = source r" "source (RefreshAddresses w r) = source r"
  "source (snd (ReplicaAddress r)) = source r"
  using source_act [of "Refresh w" r] source_act [of PickReplica r] by (simp_all add: source_def)

text \<open>
  The invariant: the counter of the loop is the number of hard errors since the last success,
  at most the budget, or one more when the loop is about to end; and it ends with an error only
  when the budget is spent, or when it is cancelled before the first success.
\<close>

fun budget_ok :: "bool \<Rightarrow> resolver \<Rightarrow> world list \<Rightarrow> loop_pc \<Rightarrow> bool" where
  "budget_ok cancelled r ws LoopStart \<longleftrightarrow> ws = []"
| "budget_ok cancelled r ws (InitialWait n e) \<longleftrightarrow> n = spent r ws \<and> n \<le> retryOnMasterResolveFail r \<and>
     ws \<noteq> [] \<and> (\<forall>w\<in>set ws. fails r w) \<and> master_verdict (last ws) r = Inl e"
| "budget_ok cancelled r ws (Ticking n err) \<longleftrightarrow> n = spent r ws \<and> n \<le> retryOnMasterResolveFail r"
| "budget_ok cancelled r ws (Backoff n e) \<longleftrightarrow> n = spent r ws \<and> n \<le> retryOnMasterResolveFail r + 1 \<and>
     (retryOnMasterResolveFail r < n \<longrightarrow> last (hard_errors r (streak r ws)) = e)"
| "budget_ok cancelled r ws (LoopDone (Some e)) \<longleftrightarrow>
     spent r ws = retryOnMasterResolveFail r + 1 \<and> last (hard_errors r (streak r ws)) = e \<or>
     cancelled \<and> spent r ws \<le> retryOnMasterResolveFail r \<and> ws \<noteq> [] \<and> (\<forall>w\<in>set ws. fails r w) \<and>
       master_verdict (last ws) r = Inl e"
| "budget_ok cancelled r ws (LoopDone None) \<longleftrightarrow> cancelled \<and> spent r ws \<le> retryOnMasterResolveFail r + 1"

lemma budget_ok_mono: "budget_ok b r ws pc \<Longrightarrow> b \<longrightarrow> b' \<Longrightarrow> budget_ok b' r ws pc"
  by (cases "(b, r, ws, pc)" rule: budget_ok.cases) auto

definition budget_inv :: "bool \<Rightarrow> resolver \<Rightarrow> world list \<Rightarrow> loop_pc \<Rightarrow> resolver \<Rightarrow> bool" where
  "budget_inv cancelled r0 ws pc r \<longleftrightarrow> budget_ok cancelled r0 ws pc \<and> ((\<forall>x. pc \<noteq> LoopDone x) \<longrightarrow> source r = source r0)"

lemma retries_source: "source r = source r0 \<Longrightarrow> retryOnMasterResolveFail r = retryOnMasterResolveFail r0"
  by (simp add: source_def configured_def)

lemma attempt_source:
  assumes "updateMasterAddress w r = (e, r1)" "source r = source r0"
  shows "source r1 = source r0" "e = (case master_verdict w r0 of Inl e \<Rightarrow> Some e | Inr _ \<Rightarrow> None)"
  using source_act [of "Attempt w" r] updateMasterAddress_serves(3) [OF assms(1)] source_verdict [OF assms(2), of w] assms
  by simp_all

lemma budget_loopTop:
  assumes "source r = source r0" "n = spent r0 ws" "n \<le> retryOnMasterResolveFail r0 + 1" "0 \<le> retryOnMasterResolveFail r0"
    "retryOnMasterResolveFail r0 < n \<Longrightarrow> \<exists>e. err = Some e \<and> last (hard_errors r0 (streak r0 ws)) = e"
  shows "budget_inv b r0 ws (fst (loopTop n err r)) (snd (loopTop n err r))"
  using assms retries_source [OF assms(1)] by (auto simp: loopTop_def budget_inv_def)

lemma budget_initialAttempt:
  assumes "source r = source r0" "0 \<le> retryOnMasterResolveFail r0" "\<forall>w\<in>set ws. fails r0 w"
    "n = spent r0 ws" "n \<le> retryOnMasterResolveFail r0"
  shows "budget_inv b r0 (ws @ [w]) (fst (initialAttempt n w r)) (snd (initialAttempt n w r))"
proof -
  obtain x r1 where u: "updateMasterAddress w r = (x, r1)" by (cases "updateMasterAddress w r")
  note a = attempt_source [OF u assms(1)]
  show ?thesis
  proof (cases "master_verdict w r0")
    case (Inr addr)
    with u a(2) have "initialAttempt n w r = loopTop 0 None (r1\<lparr>initialDone := True\<rparr>)" by (simp add: initialAttempt_def)
    then show ?thesis
      using budget_loopTop [of "r1\<lparr>initialDone := True\<rparr>" r0 0 "ws @ [w]" None b] a(1) assms(2) spent_snoc(1) [OF Inr, of ws]
      by simp
  next
    case (Inl e)
    with u a(2) have "x = Some e" by simp
    with u spent_snoc(2,3) [OF Inl, of ws] retries_source [OF a(1)] assms a(1) Inl show ?thesis
      by (auto simp: initialAttempt_def budget_inv_def loop_count_def fails_def)
  qed
qed

lemma budget_loop_step:
  assumes "loop_step pc ev r = Some c" "budget_inv b r0 ws pc r" "0 \<le> retryOnMasterResolveFail r0"
  shows "budget_inv (b \<or> ev = CtxDone) r0 (ws @ attempted pc (LoopWakes ev)) (fst c) (snd c)"
  using assms(1)
proof (cases "(pc, ev, r)" rule: loop_step.cases)
  case (3 n e w q)
  with assms show ?thesis using budget_initialAttempt [of r r0 ws n "b \<or> ev = CtxDone" w]
    by (simp add: budget_inv_def attempted_def)
next
  case (5 n err w q)
  obtain x r1 where u: "updateMasterAddress w r = (x, r1)" by (cases "updateMasterAddress w r")
  have s: "source r = source r0" "n = spent r0 ws" "n \<le> retryOnMasterResolveFail r0"
    using assms(2) 5 by (simp_all add: budget_inv_def)
  note a = attempt_source [OF u s(1)]
  show ?thesis
  proof (cases "master_verdict w r0")
    case (Inr addr)
    with u a(2) 5 assms(1) have "c = loopTop 0 None r1" by simp
    then show ?thesis
      using budget_loopTop [of r1 r0 0 "ws @ [w]" None "b \<or> ev = CtxDone"] a(1) assms(3) spent_snoc(1) [OF Inr, of ws] 5
      by (simp add: attempted_def)
  next
    case (Inl e)
    with u a(2) 5 assms(1) have "c = (Backoff (loop_count n e) e, r1)" by (simp add: loop_count_def)
    then show ?thesis
      using spent_snoc(2,3) [OF Inl, of ws] s a(1) 5
      by (auto simp: budget_inv_def attempted_def loop_count_def)
  qed
next
  case (7 n e w q)
  with assms show ?thesis using budget_loopTop [of r r0 n ws "Some e" "b \<or> ev = CtxDone"]
    by (simp add: budget_inv_def attempted_def)
qed (use assms in \<open>auto simp: budget_inv_def attempted_def\<close>)

lemma budget_frame:
  "budget_inv b r0 ws pc r \<Longrightarrow> b \<longrightarrow> b' \<Longrightarrow> source r' = source r \<Longrightarrow> budget_inv b' r0 ws pc r'"
  unfolding budget_inv_def using budget_ok_mono [of b r0 ws pc b'] by auto

lemma budget_step:
  assumes "live_step p l s = Some s'" "budget_inv b r0 ws (pLoop s) (pResolver s)" "0 \<le> retryOnMasterResolveFail r0"
  shows "budget_inv (b \<or> l = LoopWakes CtxDone) r0 (ws @ attempted (pLoop s) l) (pLoop s') (pResolver s')"
proof (cases l)
  case (LoopBegins w)
  with assms(1) have "pLoop s = LoopStart" "s' = loopMoves (initialAttempt 0 w (pResolver s)) s" by (auto split: if_splits)
  with LoopBegins assms(2,3) budget_initialAttempt [of "pResolver s" r0 "[]" 0 b w] show ?thesis
    by (simp add: budget_inv_def attempted_def)
next
  case (LoopWakes ev)
  with assms(1) obtain c where c: "loop_step (pLoop s) ev (pResolver s) = Some c" "s' = loopMoves c s"
    by (auto split: if_splits)
  from budget_loop_step [OF c(1) assms(2,3)] c(2) LoopWakes show ?thesis by simp
next
  case (SessionRefreshes w)
  with assms budget_frame [OF assms(2)] show ?thesis by (auto simp: attempted_def split: if_splits)
next
  case SessionPicks
  with assms budget_frame [OF assms(2)] show ?thesis by (auto simp: attempted_def split: if_splits)
qed (use assms in \<open>auto simp: attempted_def onLane_Some openEndpoint_def
    split: if_splits loop_pc.splits run_pc.splits option.splits\<close>)

lemma budget_run:
  assumes "run_labels p ls (proc_init r0) = Some s" "0 \<le> retryOnMasterResolveFail r0"
  shows "budget_inv (LoopWakes CtxDone \<in> set ls) r0 (attempts p ls (proc_init r0)) (pLoop s) (pResolver s)"
  using assms(1)
proof (induction ls arbitrary: s rule: rev_induct)
  case Nil
  then show ?case by (auto simp: proc_init_def budget_inv_def)
next
  case (snoc l ls)
  then obtain t where t: "run_labels p ls (proc_init r0) = Some t" "proc_step p l t = Some s"
    by (auto simp: run_labels_append split: option.splits)
  then have "live_step p l t = Some s" by (auto simp: proc_step_def split: if_splits)
  from budget_step [OF this snoc.IH [OF t(1)] assms(2)] t show ?case
    by (auto simp: attempts_append elim: budget_frame)
qed

text \<open>
  The goroutine and the loop function of \<open>Resolver\<close> agree: run by itself on any sequence of wake-ups, it
  behaves like \<open>UpdateMasterAddressLoop\<close> for a division of that sequence into the events of
  the initial resolve and those of the update loop. It has returned exactly when the function
  has, with the same result, and the resolver is the same.
\<close>

lemma loop_goroutine_refines:
  "\<exists>evs1 evs2. evs = evs1 @ evs2 \<and>
     (case loop_run (initialAttempt 0 w r) evs of (pc, r') \<Rightarrow>
        lrOutcome (UpdateMasterAddressLoop r w evs1 evs2) = loop_outcome pc \<and>
        lrResolver (UpdateMasterAddressLoop r w evs1 evs2) = r')"
proof -
  obtain pc r' where m: "loop_run (initialAttempt 0 w r) evs = (pc, r')" by (cases "loop_run (initialAttempt 0 w r) evs")
  from initial_loop_refined [OF m] obtain evs1 evs2 where e: "evs = evs1 @ evs2"
    "case lrOutcome (initialMasterAddressResolve_loop 0 r w evs1) of
          Waiting \<Rightarrow> evs2 = [] \<and> loop_outcome pc = Waiting \<and> r' = lrResolver (initialMasterAddressResolve_loop 0 r w evs1)
        | Returned (Some e) \<Rightarrow> pc = LoopDone (Some e) \<and>
            r' = closeSentinel ((lrResolver (initialMasterAddressResolve_loop 0 r w evs1))\<lparr>initialDone := True\<rparr>)
        | Returned None \<Rightarrow>
            loop_run (loopTop 0 None ((lrResolver (initialMasterAddressResolve_loop 0 r w evs1))\<lparr>initialDone := True\<rparr>)) evs2 = (pc, r')"
    by blast
  show ?thesis
  proof (cases "lrOutcome (initialMasterAddressResolve_loop 0 r w evs1) = Returned None")
    case True
    with e(2) update_loop_refined have "loop_outcome pc =
        lrOutcome (update_loop 0 None ((lrResolver (initialMasterAddressResolve_loop 0 r w evs1))\<lparr>initialDone := True\<rparr>) evs2)"
      "r' = loop_final (update_loop 0 None ((lrResolver (initialMasterAddressResolve_loop 0 r w evs1))\<lparr>initialDone := True\<rparr>) evs2)"
      by fastforce+
    with True e(1) m show ?thesis
      by (intro exI [of _ evs1] exI [of _ evs2])
        (auto simp: UpdateMasterAddressLoop_def initialMasterAddressResolve_def loop_final_def Let_def split: outcome.splits)
  next
    case False
    with e m show ?thesis
      by (intro exI [of _ evs1] exI [of _ evs2])
        (auto simp: UpdateMasterAddressLoop_def initialMasterAddressResolve_def Let_def split: outcome.splits option.splits)
  qed
qed

section \<open>Properties\<close>

text \<open>
  C5. The shutdown completes. In every fair run of the process, once it was told to stop by a
  signal, or once the resolver gave up or an endpoint could not be opened, \<open>runProxying\<close>
  returns: whatever the clients, the timers and the resolver still do in between, and however
  many sessions are running. At that moment every listener is closed.
\<close>

theorem shutdown_completes:
  assumes "startProxying resolve cfg = Inr (r0, p)" "fair_run (proc_step p) turn_of \<sigma> lab" "\<sigma> 0 = proc_init r0"
    "pSignalled (\<sigma> i) \<or> pFirstErr (\<sigma> i) \<noteq> None"
  shows "\<exists>j\<ge>i. pExit (\<sigma> j) = Some (pFirstErr (\<sigma> j)) \<and> (\<forall>l\<in>set (pLanes (\<sigma> j)). \<not> laneOpen l)"
proof -
  have ok: "proc_ok p (\<sigma> j)" for j
    by (rule proc_reach_ok [OF fair_run_reach [OF assms(2,3)]])
      (rule New_proxy_fields(4) [OF startProxying_parts(2) [OF assms(1)]])
  have "closing (\<sigma> i)" using ok [of i] assms(4) by (auto simp: proc_ok_def group_ok_def lanes_ok_def closing_def)
  from shutdown.goal_reached [OF assms(2) this] obtain j where j: "i \<le> j" "pExit (\<sigma> j) \<noteq> None" by blast
  with ok [of j] show ?thesis by (intro exI [of _ j]) (auto simp: proc_ok_def run_ok_def)
qed

theorem shutdown_completes_witness:
  "\<exists>\<sigma> lab. fair_run (proc_step sample_proxy) turn_of \<sigma> lab \<and> \<sigma> 0 = proc_init sample_resolver \<and>
     pExit (\<sigma> 6) = None \<and> pSignalled (\<sigma> 6) \<and> (\<exists>j\<ge>6. pExit (\<sigma> j) = Some (pFirstErr (\<sigma> j)))"
proof -
  obtain s u where s: "run_labels sample_proxy sample_life (proc_init sample_resolver) = Some s" "pExit s = Some None"
    "run_labels sample_proxy (take 6 sample_life) (proc_init sample_resolver) = Some u" "pSignalled u" "pExit u = None"
    by (rule sample_life_ends)
  from s(2) have "pExit s \<noteq> None" by simp
  from finished_run_fair [OF s(1) this] obtain \<sigma> lab where
    f: "fair_run (proc_step sample_proxy) turn_of \<sigma> lab" "\<sigma> 0 = proc_init sample_resolver"
    "\<And>i. i \<le> length sample_life \<Longrightarrow> run_labels sample_proxy (take i sample_life) (proc_init sample_resolver) = Some (\<sigma> i)"
    by blast
  have "\<sigma> 6 = u" using f(3) [of 6] s(3) by (simp add: sample_life_def)
  with f s(4,5) shutdown_completes [OF sample_start f(1,2), of 6] show ?thesis by blast
qed

text \<open>
  C13. Why the process ends. As long as there was no signal and no goroutine has failed, every
  endpoint that was opened is open and accepts connections. When \<open>runProxying\<close> returns, all
  listeners and the sentinel client are closed; the status is 0 only after a signal, and 1
  only for an error of the update loop or of opening an endpoint.
\<close>

theorem exit_reason:
  assumes "startProxying resolve cfg = Inr (r0, p)" "proc_reach p r0 W s"
  shows "(\<not> pSignalled s \<and> pFirstErr s = None \<longrightarrow>
      pExit s = None \<and> (\<forall>l\<in>set (pLanes s). laneOpen l \<and> laneCloser l \<and> laneAccept l \<noteq> AcceptDone)) \<and>
    (\<forall>x. pExit s = Some x \<longrightarrow>
      (\<forall>l\<in>set (pLanes s). \<not> laneOpen l) \<and> scClosed (sentinel (pResolver s)) \<and>
      (case x of
         None \<Rightarrow> exitStatus s = Some 0 \<and> pSignalled s
       | Some (ResolveFailed e) \<Rightarrow> exitStatus s = Some 1 \<and> pLoop s = LoopDone (Some e)
       | Some (ListenFailed e) \<Rightarrow> exitStatus s = Some 1 \<and> pRun s = RunDone (Some e)))"
proof -
  have ok: "proc_ok p s"
    by (rule proc_reach_ok [OF assms(2)]) (rule New_proxy_fields(4) [OF startProxying_parts(2) [OF assms(1)]])
  then have run: "pRun s = RunDone y \<Longrightarrow> pCtx s \<and> (\<forall>l\<in>set (pLanes s). \<not> laneOpen l)" for y
    by (simp add: proc_ok_def run_ok_def)
  from ok have g: "group_ok s" by (simp add: proc_ok_def)
  show ?thesis
  proof (intro conjI allI impI)
    assume q: "\<not> pSignalled s \<and> pFirstErr s = None"
    with g have "\<not> pCtx s" by (simp add: group_ok_def)
    with ok run show "pExit s = None" "\<forall>l\<in>set (pLanes s). laneOpen l \<and> laneCloser l \<and> laneAccept l \<noteq> AcceptDone"
      by (cases "pExit s"; auto simp: proc_ok_def lanes_ok_def)+
  next
    fix x assume x: "pExit s = Some x"
    with ok obtain a b where ab: "pLoop s = LoopDone a" "pRun s = RunDone b" "x = pFirstErr s" by (auto simp: proc_ok_def)
    then show "\<forall>l\<in>set (pLanes s). \<not> laneOpen l" "scClosed (sentinel (pResolver s))"
      using run [of b] ok by (auto simp: proc_ok_def)
    show "case x of None \<Rightarrow> exitStatus s = Some 0 \<and> pSignalled s
        | Some (ResolveFailed e) \<Rightarrow> exitStatus s = Some 1 \<and> pLoop s = LoopDone (Some e)
        | Some (ListenFailed e) \<Rightarrow> exitStatus s = Some 1 \<and> pRun s = RunDone (Some e)"
      using g ab x run [of b] by (auto simp: group_ok_def exitStatus_def split: option.splits proc_error.splits)
  qed
qed

theorem exit_reason_witness:
  "\<exists>s. proc_reach sample_proxy sample_resolver {good_world} s \<and> exitStatus s = Some 0 \<and> pSignalled s \<and>
     scClosed (sentinel (pResolver s))"
proof -
  obtain s where s: "run_labels sample_proxy sample_life (proc_init sample_resolver) = Some s" "pExit s = Some None"
    by (rule sample_life_ends)
  then have "proc_reach sample_proxy sample_resolver {good_world} s"
    by (intro run_labels_reach [OF s(1) proc_reach.start]) (simp add: sample_life_def)
  with exit_reason [OF sample_start this] s(2) show ?thesis by (auto split: option.splits)
qed

text \<open>
  C3. The whole process, in every state it can reach: the served master was verified in a
  world that some attempt saw (or there is none yet), every served replica too, no more than
  \<open>MaxConnections\<close> sessions run, and once the update loop has returned nobody waits for the
  initial resolve any more.
\<close>

theorem process_invariant:
  assumes "startProxying resolve cfg = Inr (r0, p)" "proc_reach p r0 W s" "\<forall>w\<in>W. go_world w"
    "MaxConnections cfg = Some n"
  shows "(masterAddr (pResolver s) = [] \<or> (\<exists>w\<in>W. verified_master w r0 (masterAddr (pResolver s)))) \<and>
    (\<forall>a\<in>set (replicaAddrs (pResolver s)). \<exists>w\<in>W. verified_replica w r0 a) \<and>
    (0 < n \<longrightarrow> int (length (live (pServer s))) \<le> n) \<and>
    (\<forall>x. pLoop s = LoopDone x \<longrightarrow> MasterAddress (pResolver s) = Some (masterAddr (pResolver s)))"
proof -
  note parts = startProxying_parts [OF assms(1)]
  note run = proc_reach_running [OF assms(2) parts(1) assms(3)]
  have ok: "proc_ok p s" by (rule proc_reach_ok [OF assms(2)]) (rule New_proxy_fields(4) [OF parts(2)])
  have sem: "sem p = (if 0 < n then Some (nat n) else None)" using New_proxy_fields(9) [OF parts(2)] assms(4) by simp
  have "0 < n \<Longrightarrow> int (length (live (pServer s))) \<le> n"
    using ok serving_invariant [of "sem p" "pServer s"] sem by (auto simp: proc_ok_def)
  moreover have "pLoop s = LoopDone x \<Longrightarrow> initialDone (pResolver s)" for x using ok by (simp add: proc_ok_def)
  ultimately show ?thesis using running_verified(1,2) [OF run] by (auto simp: MasterAddress_def)
qed

theorem process_invariant_witness:
  "\<exists>s. proc_reach sample_proxy sample_resolver {good_world} s \<and> length (live (pServer s)) \<le> 100 \<and>
     MasterAddress (pResolver s) = Some (masterAddr (pResolver s))"
proof -
  obtain s where s: "run_labels sample_proxy sample_life (proc_init sample_resolver) = Some s" "pExit s = Some None"
    by (rule sample_life_ends)
  then have r: "proc_reach sample_proxy sample_resolver {good_world} s"
    by (intro run_labels_reach [OF s(1) proc_reach.start]) (simp add: sample_life_def)
  obtain x where "pLoop s = LoopDone x"
    using proc_reach_ok [OF r] sample_addrs s(2) by (auto simp: proc_ok_def)
  with process_invariant [OF sample_start r, of 100] r show ?thesis
    by (auto simp: both_cfg_def sample_cfg_def Default_def)
qed

text \<open>
  C14. The process gives up resolving exactly when its retry budget is spent. Take any run of the
  process, whatever its sessions, listeners and refreshes do in between, and the attempts of
  the update loop in it. When the loop has ended with an error, the attempts since the last
  success hold exactly one hard error more than \<open>resolve_retries\<close>, and the error is the last of
  them; or the loop was cancelled before its first success, and the error is that of the last
  attempt. It ends without an error only by cancellation. And there is never an attempt beyond
  the budget: with one hard error more than \<open>resolve_retries\<close> since the last success, the
  loop has ended or is in its last backoff.
\<close>

theorem process_gives_up_after_budget:
  assumes "run_labels p ls (proc_init r0) = Some s" "0 \<le> retryOnMasterResolveFail r0"
    "ws = attempts p ls (proc_init r0)" "hs = hard_errors r0 (streak r0 ws)"
  shows "(\<forall>e. pLoop s = LoopDone (Some e) \<longrightarrow>
      int (length hs) = retryOnMasterResolveFail r0 + 1 \<and> last hs = e \<or>
      LoopWakes CtxDone \<in> set ls \<and> int (length hs) \<le> retryOnMasterResolveFail r0 \<and> ws \<noteq> [] \<and>
        (\<forall>w\<in>set ws. fails r0 w) \<and> master_verdict (last ws) r0 = Inl e) \<and>
    (pLoop s = LoopDone None \<longrightarrow> LoopWakes CtxDone \<in> set ls) \<and>
    int (length hs) \<le> retryOnMasterResolveFail r0 + 1 \<and>
    (int (length hs) = retryOnMasterResolveFail r0 + 1 \<longrightarrow>
      (\<exists>x. pLoop s = LoopDone x) \<or> (\<exists>n e. pLoop s = Backoff n e))"
proof -
  have "int (length hs) = spent r0 ws" using assms(4) by (simp add: spent_def)
  moreover have "budget_ok (LoopWakes CtxDone \<in> set ls) r0 ws (pLoop s)"
    using budget_run [OF assms(1,2)] assms(3) by (simp add: budget_inv_def)
  ultimately show ?thesis
    using assms(2,4) by (cases "(LoopWakes CtxDone \<in> set ls, r0, ws, pLoop s)" rule: budget_ok.cases) auto
qed

theorem process_gives_up_after_budget_witness:
  "\<exists>s. run_labels sample_proxy [Signal, LoopBegins down_world] (proc_init (sample_resolver\<lparr>retryOnMasterResolveFail := 0\<rparr>)) = Some s \<and>
     pLoop s = LoopDone (Some (FromSentinel (RedisErr ''down''))) \<and>
     hard_errors (sample_resolver\<lparr>retryOnMasterResolveFail := 0\<rparr>) [down_world] = [FromSentinel (RedisErr ''down'')]"
proof -
  let ?r = "sample_resolver\<lparr>retryOnMasterResolveFail := 0\<rparr>" and ?ls = "[Signal, LoopBegins down_world]"
  have v: "master_verdict down_world r = Inl (FromSentinel (RedisErr ''down''))" for r
    by (simp add: master_verdict_def resolveMasterAddress_def down_world_def)
  obtain x r1 where u: "updateMasterAddress down_world ?r = (x, r1)" by (cases "updateMasterAddress down_world ?r")
  have x: "x = Some (FromSentinel (RedisErr ''down''))" "retryOnMasterResolveFail r1 = 0"
    using updateMasterAddress_serves(3) [OF u] fixed_fields(6) [OF updateMasterAddress_serves(1) [OF u]] by (simp_all add: v)
  then obtain s where s: "run_labels sample_proxy ?ls (proc_init ?r) = Some s"
    "pLoop s = LoopDone (Some (FromSentinel (RedisErr ''down'')))"
    using u by (simp add: proc_step_def proc_init_def initialAttempt_def)
  have a: "attempts sample_proxy ?ls (proc_init ?r) = [down_world]"
    by (simp add: attempted_def proc_step_def proc_init_def)
  have f: "streak ?r [down_world] = [down_world]" using v by (simp add: streak_def fails_def)
  have "length (hard_errors ?r [down_world]) = 1 \<and> last (hard_errors ?r [down_world]) = FromSentinel (RedisErr ''down'')"
    using process_gives_up_after_budget [OF s(1) _ a [symmetric] refl] s(2) f by simp
  then have "hard_errors ?r [down_world] = [FromSentinel (RedisErr ''down'')]" by (auto simp: length_Suc_conv)
  with s show ?thesis by blast
qed

end
