(* ===== verification/Flags.thy ===== *)
theory Flags
  imports Load "HOL-Library.Multiset"
begin

text \<open>
  \<open>pkg/config/flags.go\<close> with what it uses of the packages \<open>flag\<close> and \<open>strconv\<close>: the
  parser of the command line, the table of flags that \<open>BindFlags\<close> registers, and the
  configuration made of the flags that were set explicitly.
\<close>

section \<open>Definitions\<close>

subsection \<open>strconv.ParseInt with base 0\<close>

text \<open>\<open>lower(c)\<close> is \<open>c | ('x' - 'X')\<close>.\<close>

definition lower :: "char \<Rightarrow> nat" where
  "lower c = (let n = (of_char c :: nat) in if n div 32 mod 2 = 1 then n else n + 32)"

text \<open>\<open>underscoreOK\<close>: the last character seen is the start, a digit (or the base prefix), an
  underscore or something else.\<close>

datatype saw = SawStart | SawDigit | SawUnderscore | SawOther

fun underscoreOK_loop :: "bool \<Rightarrow> saw \<Rightarrow> string \<Rightarrow> bool" where
  "underscoreOK_loop hex s [] \<longleftrightarrow> s \<noteq> SawUnderscore"
| "underscoreOK_loop hex s (c # cs) =
     (if is_digit c \<or> hex \<and> 97 \<le> lower c \<and> lower c \<le> 102 then underscoreOK_loop hex SawDigit cs
      else if c = CHR ''_'' then (if s \<noteq> SawDigit then False else underscoreOK_loop hex SawUnderscore cs)
      else if s = SawUnderscore then False
      else underscoreOK_loop hex SawOther cs)"

definition basePrefix :: "string \<Rightarrow> bool" where
  "basePrefix s \<longleftrightarrow> 2 \<le> length s \<and> s ! 0 = CHR ''0'' \<and> (lower (s ! 1) = 98 \<or> lower (s ! 1) = 111 \<or> lower (s ! 1) = 120)"

definition underscoreOK :: "string \<Rightarrow> bool" where
  "underscoreOK s0 =
     (let s = (if take 1 s0 = ''-'' \<or> take 1 s0 = ''+'' then drop 1 s0 else s0)
      in if basePrefix s then underscoreOK_loop (lower (s ! 1) = 120) SawDigit (drop 2 s)
         else underscoreOK_loop False SawStart s)"

text \<open>The digit loop of \<open>ParseUint\<close>, with base and value so far; underscores are skipped.\<close>

definition digitOf :: "char \<Rightarrow> nat option" where
  "digitOf c =
     (if is_digit c then Some (digit_val c)
      else if 97 \<le> lower c \<and> lower c \<le> 122 then Some (lower c - 97 + 10)
      else None)"

fun parseUint0_loop :: "nat \<Rightarrow> nat \<Rightarrow> string \<Rightarrow> num_error + nat" where
  "parseUint0_loop base n [] = Inr n"
| "parseUint0_loop base n (c # cs) =
     (if c = CHR ''_'' then parseUint0_loop base n cs
      else case digitOf c of
        None \<Rightarrow> Inl ErrSyntax
      | Some d \<Rightarrow>
          if base \<le> d then Inl ErrSyntax
          else if maxUint64 div base + 1 \<le> n then Inl ErrRange
          else if maxUint64 < n * base + d then Inl ErrRange
          else parseUint0_loop base (n * base + d) cs)"

definition base0 :: "string \<Rightarrow> nat \<times> string" where
  "base0 s =
     (if s ! 0 = CHR ''0'' then
        if 3 \<le> length s \<and> lower (s ! 1) = 98 then (2, drop 2 s)
        else if 3 \<le> length s \<and> lower (s ! 1) = 111 then (8, drop 2 s)
        else if 3 \<le> length s \<and> lower (s ! 1) = 120 then (16, drop 2 s)
        else (8, drop 1 s)
      else (10, s))"

definition parseUint0 :: "string \<Rightarrow> num_error + nat" where
  "parseUint0 s =
     (if s = [] then Inl ErrSyntax
      else case base0 s of (base, ds) \<Rightarrow>
        bindR (parseUint0_loop base 0 ds) (\<lambda>n.
        if CHR ''_'' \<in> set ds \<and> \<not> underscoreOK s then Inl ErrSyntax else Inr n))"

text \<open>\<open>strconv.ParseInt(s, 0, 64)\<close>.\<close>

definition ParseInt0 :: "string \<Rightarrow> num_error + int" where
  "ParseInt0 s =
     (if s = [] then Inl ErrSyntax
      else let neg = (hd s = CHR ''-'');
               ds = (if hd s = CHR ''-'' \<or> hd s = CHR ''+'' then tl s else s)
           in case parseUint0 ds of
                Inl e \<Rightarrow> Inl e
              | Inr u \<Rightarrow>
                  if \<not> neg \<and> 2 ^ 63 \<le> u then Inl ErrRange
                  else if neg \<and> 2 ^ 63 < u then Inl ErrRange
                  else Inr (if neg then - int u else int u))"

subsection \<open>The flag package\<close>

datatype flag_kind = StrKind | BoolKind | IntKind | DurKind

datatype flag_value = FStr string | FBool bool | FInt int | FDur Duration

datatype flag_error =
    BadFlagSyntax string
  | NotDefined string
  | HelpRequested
  | NeedsArgument string
  | InvalidFlagValue string string

text \<open>\<open>Value.Set\<close> of the four kinds.\<close>

definition flagSet :: "host \<Rightarrow> string \<Rightarrow> flag_kind \<Rightarrow> string \<Rightarrow> flag_error + flag_value" where
  "flagSet h name kind s =
     (case kind of
        StrKind \<Rightarrow> Inr (FStr s)
      | BoolKind \<Rightarrow> (case ParseBool s of Inl _ \<Rightarrow> Inl (InvalidFlagValue name s) | Inr b \<Rightarrow> Inr (FBool b))
      | IntKind \<Rightarrow> (case ParseInt0 s of Inl _ \<Rightarrow> Inl (InvalidFlagValue name s) | Inr i \<Rightarrow> Inr (FInt i))
      | DurKind \<Rightarrow> (case ParseDuration h s of None \<Rightarrow> Inl (InvalidFlagValue name s) | Some d \<Rightarrow> Inr (FDur d)))"

text \<open>
  \<open>FlagSet.parseOne\<close>: the arguments end here (at the first that is no flag, or after
  \<open>--\<close>), or a flag gets a value and the rest of the arguments remains.
\<close>

datatype parsed = ArgsFrom "string list" | FlagGiven string flag_value "string list"

definition parseOne :: "host \<Rightarrow> (string \<rightharpoonup> flag_kind) \<Rightarrow> string list \<Rightarrow> flag_error + parsed" where
  "parseOne h formal args0 =
     (case args0 of
        [] \<Rightarrow> Inr (ArgsFrom [])
      | s # args \<Rightarrow>
          if length s < 2 \<or> s ! 0 \<noteq> CHR ''-'' then Inr (ArgsFrom (s # args))
          else if s = ''--'' then Inr (ArgsFrom args)
          else let name0 = drop (if s ! 1 = CHR ''-'' then 2 else 1) s
               in if name0 = [] \<or> hd name0 = CHR ''-'' \<or> hd name0 = CHR ''='' then Inl (BadFlagSyntax s)
                  else let name = takeWhile (\<lambda>c. c \<noteq> CHR ''='') name0;
                           hasValue = (CHR ''='' \<in> set name0);
                           val = drop (Suc (length name)) name0
                       in case formal name of
                            None \<Rightarrow> if name = ''help'' \<or> name = ''h'' then Inl HelpRequested else Inl (NotDefined name)
                          | Some kind \<Rightarrow>
                              if kind = BoolKind then
                                bindR (flagSet h name BoolKind (if hasValue then val else ''true'')) (\<lambda>v.
                                Inr (FlagGiven name v args))
                              else if hasValue then
                                bindR (flagSet h name kind val) (\<lambda>v. Inr (FlagGiven name v args))
                              else (case args of
                                      [] \<Rightarrow> Inl (NeedsArgument name)
                                    | a # args' \<Rightarrow>
                                        bindR (flagSet h name kind a) (\<lambda>v. Inr (FlagGiven name v args'))))"

lemma parseOne_flag:
  assumes "parseOne h formal args = Inr (FlagGiven n v rest)"
  shows "length rest < length args" "\<exists>kind s. formal n = Some kind \<and> flagSet h n kind s = Inr v"
proof -
  from assms obtain s args1 where args: "args = s # args1" by (cases args) (simp_all add: parseOne_def)
  from assms have "(rest = args1 \<or> args1 \<noteq> [] \<and> rest = tl args1) \<and>
      (\<exists>kind s. formal n = Some kind \<and> flagSet h n kind s = Inr v)"
    unfolding args parseOne_def
    by (auto simp: Let_def bindR_Inr_iff split: if_splits option.splits list.splits)
  then show "length rest < length args" "\<exists>kind s. formal n = Some kind \<and> flagSet h n kind s = Inr v"
    using args by (auto simp: neq_Nil_conv)
qed

text \<open>
  \<open>FlagSet.Parse\<close>: the flags set so far with their last value, and the arguments.
\<close>

function flagParse ::
  "host \<Rightarrow> (string \<rightharpoonup> flag_kind) \<Rightarrow> (string \<rightharpoonup> flag_value) \<Rightarrow> string list \<Rightarrow>
     flag_error + ((string \<rightharpoonup> flag_value) \<times> string list)" where
  "flagParse h formal actual args =
     (case parseOne h formal args of
        Inl e \<Rightarrow> Inl e
      | Inr (ArgsFrom rest) \<Rightarrow> Inr (actual, rest)
      | Inr (FlagGiven n v rest) \<Rightarrow> flagParse h formal (actual(n \<mapsto> v)) rest)"
  by pat_completeness auto
termination
  by (relation "measure (\<lambda>(h, formal, actual, args). length args)") (auto dest: parseOne_flag(1))

declare flagParse.simps [simp del]

subsection \<open>BindFlags\<close>

text \<open>
  The function that copies the value of a flag into the configuration, by kind. Each of \<open>strFlag\<close>,
  \<open>boolFlag\<close>, \<open>intFlag\<close> and \<open>durFlag\<close> registers the flag with the same pointer that it hands to
  its setter, whose parameter has that pointer's type; so a flag's kind and its setter's are one,
  by Go's types, and the constructor stands for both (\<open>setterKind\<close>).
\<close>

datatype flag_setter =
    SetStr "string \<Rightarrow> config \<Rightarrow> config"
  | SetBool "bool \<Rightarrow> config \<Rightarrow> config"
  | SetInt "int \<Rightarrow> config \<Rightarrow> config"
  | SetDur "Duration \<Rightarrow> config \<Rightarrow> config"

definition setSentinelTLS :: "(backendTLS \<Rightarrow> backendTLS) \<Rightarrow> config \<Rightarrow> config" where
  "setSentinelTLS f c = c\<lparr>SentinelTLS := Some (f (ensureBackendTLS (SentinelTLS c)))\<rparr>"

definition setListenTLS :: "(listenTLS \<Rightarrow> listenTLS) \<Rightarrow> config \<Rightarrow> config" where
  "setListenTLS f c = c\<lparr>ListenTLS := Some (f (ensureListenTLS (ListenTLS c)))\<rparr>"

definition setMasterTLS :: "(backendTLS \<Rightarrow> backendTLS) \<Rightarrow> config \<Rightarrow> config" where
  "setMasterTLS f c = c\<lparr>MasterTLS := Some (f (ensureBackendTLS (MasterTLS c)))\<rparr>"

text \<open>The flags that \<open>BindFlags\<close> registers, in the order of the source.\<close>

definition boundFlags :: "(string \<times> flag_setter) list" where
  "boundFlags =
   [(''listen'', SetStr (\<lambda>v c. c\<lparr>Listen := Some v\<rparr>)),
    (''replica-listen'', SetStr (\<lambda>v c. c\<lparr>ReplicaListen := Some v\<rparr>)),
    (''replica-fallback'', SetStr (\<lambda>v c. c\<lparr>ReplicaFallback := Some v\<rparr>)),
    (''sentinel'', SetStr (\<lambda>v c. c\<lparr>Sentinel := Some v\<rparr>)),
    (''master'', SetStr (\<lambda>v c. c\<lparr>Master := Some v\<rparr>)),
    (''username'', SetStr (\<lambda>v c. c\<lparr>Username := Some v\<rparr>)),
    (''password'', SetStr (\<lambda>v c. c\<lparr>Password := Some v\<rparr>)),
    (''master-username'', SetStr (\<lambda>v c. c\<lparr>MasterUsername := Some v\<rparr>)),
    (''master-password'', SetStr (\<lambda>v c. c\<lparr>MasterPassword := Some v\<rparr>)),
    (''router'', SetBool (\<lambda>v c. c\<lparr>RouterMode := Some v\<rparr>)),
    (''resolve-retries'', SetInt (\<lambda>v c. c\<lparr>ResolveRetries := Some v\<rparr>)),
    (''max-connections'', SetInt (\<lambda>v c. c\<lparr>MaxConnections := Some v\<rparr>)),
    (''idle-timeout'', SetDur (\<lambda>v c. c\<lparr>IdleTimeout := Some v\<rparr>)),
    (''debug'', SetBool (\<lambda>v c. c\<lparr>Debug := Some v\<rparr>)),
    (''sentinel-tls'', SetBool (\<lambda>v. setSentinelTLS (bEnabled_update (\<lambda>_. Some v)))),
    (''sentinel-tls-ca-file'', SetStr (\<lambda>v. setSentinelTLS (bCAFile_update (\<lambda>_. Some v)))),
    (''sentinel-tls-cert-file'', SetStr (\<lambda>v. setSentinelTLS (bCertFile_update (\<lambda>_. Some v)))),
    (''sentinel-tls-key-file'', SetStr (\<lambda>v. setSentinelTLS (bKeyFile_update (\<lambda>_. Some v)))),
    (''sentinel-tls-server-name'', SetStr (\<lambda>v. setSentinelTLS (bServerName_update (\<lambda>_. Some v)))),
    (''sentinel-tls-skip-verify'', SetBool (\<lambda>v. setSentinelTLS (bSkipVerify_update (\<lambda>_. Some v)))),
    (''listen-tls'', SetBool (\<lambda>v. setListenTLS (lEnabled_update (\<lambda>_. Some v)))),
    (''listen-tls-cert-file'', SetStr (\<lambda>v. setListenTLS (lCertFile_update (\<lambda>_. Some v)))),
    (''listen-tls-key-file'', SetStr (\<lambda>v. setListenTLS (lKeyFile_update (\<lambda>_. Some v)))),
    (''listen-tls-client-ca-file'', SetStr (\<lambda>v. setListenTLS (lClientCAFile_update (\<lambda>_. Some v)))),
    (''master-tls'', SetBool (\<lambda>v. setMasterTLS (bEnabled_update (\<lambda>_. Some v)))),
    (''master-tls-ca-file'', SetStr (\<lambda>v. setMasterTLS (bCAFile_update (\<lambda>_. Some v)))),
    (''master-tls-cert-file'', SetStr (\<lambda>v. setMasterTLS (bCertFile_update (\<lambda>_. Some v)))),
    (''master-tls-key-file'', SetStr (\<lambda>v. setMasterTLS (bKeyFile_update (\<lambda>_. Some v)))),
    (''master-tls-server-name'', SetStr (\<lambda>v. setMasterTLS (bServerName_update (\<lambda>_. Some v)))),
    (''master-tls-skip-verify'', SetBool (\<lambda>v. setMasterTLS (bSkipVerify_update (\<lambda>_. Some v)))),
    (''master-tls-passthrough'', SetBool (\<lambda>v. setMasterTLS (bPassthrough_update (\<lambda>_. Some v))))]"

fun setterKind :: "flag_setter \<Rightarrow> flag_kind" where
  "setterKind (SetStr _) = StrKind"
| "setterKind (SetBool _) = BoolKind"
| "setterKind (SetInt _) = IntKind"
| "setterKind (SetDur _) = DurKind"

text \<open>The flags of the command line: the bound ones, and \<open>-config\<close> of \<open>main.go\<close>.\<close>

definition formalFlags :: "string \<rightharpoonup> flag_kind" where
  "formalFlags = (map_of (map (\<lambda>(n, st). (n, setterKind st)) boundFlags))(''config'' \<mapsto> StrKind)"

fun applySetter :: "flag_setter \<Rightarrow> flag_value \<Rightarrow> config \<Rightarrow> config" where
  "applySetter (SetStr f) (FStr v) c = f v c"
| "applySetter (SetBool f) (FBool v) c = f v c"
| "applySetter (SetInt f) (FInt v) c = f v c"
| "applySetter (SetDur f) (FDur v) c = f v c"
| "applySetter _ _ c = c"

text \<open>
  The function \<open>BindFlags\<close> returns: \<open>fs.Visit\<close> runs over the flags that were set, in
  lexical order.
\<close>

definition fromFlags :: "(string \<rightharpoonup> flag_value) \<Rightarrow> config" where
  "fromFlags actual =
     fold (\<lambda>(n, st) c. case actual n of None \<Rightarrow> c | Some v \<Rightarrow> applySetter st v c)
       (sort_key fst boundFlags) zero_config"

section \<open>Facts\<close>

text \<open>The documented name of the flag of each setting.\<close>

fun flag_name :: "setting \<Rightarrow> string" where
  "flag_name KListen = ''listen''"
| "flag_name KReplicaListen = ''replica-listen''"
| "flag_name KReplicaFallback = ''replica-fallback''"
| "flag_name KSentinel = ''sentinel''"
| "flag_name KMaster = ''master''"
| "flag_name KUsername = ''username''"
| "flag_name KPassword = ''password''"
| "flag_name KMasterUsername = ''master-username''"
| "flag_name KMasterPassword = ''master-password''"
| "flag_name KRouter = ''router''"
| "flag_name KResolveRetries = ''resolve-retries''"
| "flag_name KMaxConnections = ''max-connections''"
| "flag_name KIdleTimeout = ''idle-timeout''"
| "flag_name KDebug = ''debug''"
| "flag_name KSentinelTLSEnabled = ''sentinel-tls''"
| "flag_name KSentinelTLSCAFile = ''sentinel-tls-ca-file''"
| "flag_name KSentinelTLSCertFile = ''sentinel-tls-cert-file''"
| "flag_name KSentinelTLSKeyFile = ''sentinel-tls-key-file''"
| "flag_name KSentinelTLSServerName = ''sentinel-tls-server-name''"
| "flag_name KSentinelTLSSkipVerify = ''sentinel-tls-skip-verify''"
| "flag_name KListenTLSEnabled = ''listen-tls''"
| "flag_name KListenTLSCertFile = ''listen-tls-cert-file''"
| "flag_name KListenTLSKeyFile = ''listen-tls-key-file''"
| "flag_name KListenTLSClientCAFile = ''listen-tls-client-ca-file''"
| "flag_name KMasterTLSEnabled = ''master-tls''"
| "flag_name KMasterTLSCAFile = ''master-tls-ca-file''"
| "flag_name KMasterTLSCertFile = ''master-tls-cert-file''"
| "flag_name KMasterTLSKeyFile = ''master-tls-key-file''"
| "flag_name KMasterTLSServerName = ''master-tls-server-name''"
| "flag_name KMasterTLSSkipVerify = ''master-tls-skip-verify''"
| "flag_name KMasterTLSPassthrough = ''master-tls-passthrough''"

text \<open>The documented kind of the value of each flag.\<close>

definition setting_kind :: "setting \<Rightarrow> flag_kind" where
  "setting_kind k =
     (if k \<in> {KRouter, KDebug, KSentinelTLSEnabled, KSentinelTLSSkipVerify, KListenTLSEnabled, KMasterTLSEnabled,
            KMasterTLSSkipVerify, KMasterTLSPassthrough} then BoolKind
      else if k \<in> {KResolveRetries, KMaxConnections} then IntKind
      else if k = KIdleTimeout then DurKind
      else StrKind)"

definition flag_keys :: "setting list" where
  "flag_keys = [KListen, KReplicaListen, KReplicaFallback, KSentinel, KMaster, KUsername, KPassword,
     KMasterUsername, KMasterPassword, KRouter, KResolveRetries, KMaxConnections, KIdleTimeout,
     KDebug, KSentinelTLSEnabled, KSentinelTLSCAFile, KSentinelTLSCertFile, KSentinelTLSKeyFile,
     KSentinelTLSServerName, KSentinelTLSSkipVerify, KListenTLSEnabled, KListenTLSCertFile,
     KListenTLSKeyFile, KListenTLSClientCAFile, KMasterTLSEnabled, KMasterTLSCAFile,
     KMasterTLSCertFile, KMasterTLSKeyFile, KMasterTLSServerName, KMasterTLSSkipVerify,
     KMasterTLSPassthrough]"

lemma UNIV_setting: "set flag_keys = UNIV"
proof -
  have "k \<in> set flag_keys" for k by (cases k) (simp_all add: flag_keys_def)
  then show ?thesis by blast
qed

lemma distinct_flag_keys: "distinct flag_keys"
  by (simp add: flag_keys_def)

lemma all_settings: "(\<forall>k. P k) \<longleftrightarrow> list_all P flag_keys"
  by (simp add: list_all_iff UNIV_setting)

lemma bound_names: "map fst boundFlags = map flag_name flag_keys"
  by (simp add: boundFlags_def flag_keys_def)

lemma bound_kinds: "map (setterKind \<circ> snd) boundFlags = map setting_kind flag_keys"
  by (simp add: boundFlags_def flag_keys_def setting_kind_def)

lemma distinct_names: "distinct (map flag_name flag_keys)"
  by (simp add: flag_keys_def)

lemma flag_name_inject [simp]: "flag_name k = flag_name k' \<longleftrightarrow> k = k'"
  using distinct_names UNIV_setting by (auto simp: distinct_map inj_on_def)

lemma flag_names_wf: "list_all (\<lambda>n. n \<noteq> [] \<and> hd n \<noteq> CHR ''-'' \<and> CHR ''='' \<notin> set n \<and> n \<noteq> ''config'') (map flag_name flag_keys)"
  by (simp add: flag_keys_def)

fun setting_of :: "flag_value \<Rightarrow> setting_value" where
  "setting_of (FStr v) = VStr v"
| "setting_of (FBool v) = VBool v"
| "setting_of (FInt v) = VInt v"
| "setting_of (FDur v) = VInt v"

fun value_kind :: "flag_value \<Rightarrow> flag_kind" where
  "value_kind (FStr _) = StrKind"
| "value_kind (FBool _) = BoolKind"
| "value_kind (FInt _) = IntKind"
| "value_kind (FDur _) = DurKind"

text \<open>A setter changes one setting and nothing else.\<close>

definition hits :: "setting \<Rightarrow> flag_setter \<Rightarrow> bool" where
  "hits k st \<longleftrightarrow> (\<forall>v c. value_kind v = setterKind st \<longrightarrow>
     (\<forall>k'. lookup_setting k' (applySetter st v c) = (if k' = k then Some (setting_of v) else lookup_setting k' c)))"

lemma all_flag_values:
  "(\<forall>v. P v) \<longleftrightarrow> (\<forall>x. P (FStr x)) \<and> (\<forall>x. P (FBool x)) \<and> (\<forall>x. P (FInt x)) \<and> (\<forall>x. P (FDur x))"
  by (metis flag_value.exhaust)

lemma hits_kinds:
  "hits k (SetStr f) \<longleftrightarrow> (\<forall>v c k'. lookup_setting k' (f v c) = (if k' = k then Some (VStr v) else lookup_setting k' c))"
  "hits k (SetBool g) \<longleftrightarrow> (\<forall>v c k'. lookup_setting k' (g v c) = (if k' = k then Some (VBool v) else lookup_setting k' c))"
  "hits k (SetInt i) \<longleftrightarrow> (\<forall>v c k'. lookup_setting k' (i v c) = (if k' = k then Some (VInt v) else lookup_setting k' c))"
  "hits k (SetDur d) \<longleftrightarrow> (\<forall>v c k'. lookup_setting k' (d v c) = (if k' = k then Some (VInt v) else lookup_setting k' c))"
  by (simp_all add: hits_def all_flag_values)

lemma ensured_fields [simp]:
  "bEnabled (ensureBackendTLS t) = Option.bind t bEnabled" "bCAFile (ensureBackendTLS t) = Option.bind t bCAFile"
  "bCertFile (ensureBackendTLS t) = Option.bind t bCertFile" "bKeyFile (ensureBackendTLS t) = Option.bind t bKeyFile"
  "bServerName (ensureBackendTLS t) = Option.bind t bServerName" "bSkipVerify (ensureBackendTLS t) = Option.bind t bSkipVerify"
  "bPassthrough (ensureBackendTLS t) = Option.bind t bPassthrough"
  "lEnabled (ensureListenTLS l) = Option.bind l lEnabled" "lCertFile (ensureListenTLS l) = Option.bind l lCertFile"
  "lKeyFile (ensureListenTLS l) = Option.bind l lKeyFile" "lClientCAFile (ensureListenTLS l) = Option.bind l lClientCAFile"
  by (cases t; cases l; simp add: ensureBackendTLS_def ensureListenTLS_def zero_backendTLS_def zero_listenTLS_def)+

lemma bound_hits: "list_all2 (\<lambda>k (n, st). hits k st) flag_keys boundFlags"
  unfolding boundFlags_def flag_keys_def
  by (simp add: hits_kinds all_settings [unfolded flag_keys_def] setSentinelTLS_def setListenTLS_def setMasterTLS_def)

lemma bound_flag:
  assumes "(n, st) \<in> set boundFlags"
  obtains k where "n = flag_name k" "hits k st"
proof -
  from assms obtain i where i: "i < length boundFlags" "boundFlags ! i = (n, st)" by (auto simp: in_set_conv_nth)
  have "hits (flag_keys ! i) st"
    using list_all2_nthD2 [OF bound_hits i(1)] i(2) by simp
  moreover have "length flag_keys = length boundFlags" using bound_names by (metis length_map)
  then have "map fst boundFlags ! i = n" "map flag_name flag_keys ! i = flag_name (flag_keys ! i)"
    using i by simp_all
  then have "n = flag_name (flag_keys ! i)" by (simp add: bound_names)
  ultimately show thesis using that by blast
qed

text \<open>Any sequence of visited flags, in any order, sets exactly their settings.\<close>

lemma fold_flags:
  assumes "set fs \<subseteq> set boundFlags" "distinct (map fst fs)"
    "\<forall>(n, st)\<in>set fs. \<forall>v. actual n = Some v \<longrightarrow> value_kind v = setterKind st"
  shows "lookup_setting k (fold (\<lambda>(n, st) c. case actual n of None \<Rightarrow> c | Some v \<Rightarrow> applySetter st v c) fs c) =
    (case (if flag_name k \<in> set (map fst fs) then actual (flag_name k) else None) of
       None \<Rightarrow> lookup_setting k c | Some v \<Rightarrow> Some (setting_of v))"
  using assms
proof (induction fs arbitrary: c)
  case (Cons f fs)
  obtain n st where f: "f = (n, st)" by (cases f)
  with Cons.prems(1) obtain j where j: "n = flag_name j" "hits j st" by (auto elim: bound_flag)
  let ?c = "case actual n of None \<Rightarrow> c | Some v \<Rightarrow> applySetter st v c"
  have c: "lookup_setting k ?c = (if k = j then (case actual n of None \<Rightarrow> lookup_setting k c | Some v \<Rightarrow> Some (setting_of v))
      else lookup_setting k c)"
    using Cons.prems(3) f j(2) by (auto simp: hits_def split: option.splits)
  have notin: "flag_name j \<notin> set (map fst fs)" using Cons.prems(2) f j(1) by simp
  have "lookup_setting k (fold (\<lambda>(n, st) c. case actual n of None \<Rightarrow> c | Some v \<Rightarrow> applySetter st v c) fs ?c) =
    (case (if flag_name k \<in> set (map fst fs) then actual (flag_name k) else None) of
       None \<Rightarrow> lookup_setting k ?c | Some v \<Rightarrow> Some (setting_of v))"
    using Cons.prems by (intro Cons.IH) auto
  then show ?case using f j(1) notin c by (auto split: option.splits)
qed simp

subsection \<open>The parser\<close>

lemma flagSet_kind: "flagSet h n kind s = Inr v \<Longrightarrow> value_kind v = kind"
  by (cases kind) (auto simp: flagSet_def split: sum.splits option.splits)

definition well_kinded :: "(string \<rightharpoonup> flag_kind) \<Rightarrow> (string \<rightharpoonup> flag_value) \<Rightarrow> bool" where
  "well_kinded formal actual \<longleftrightarrow> (\<forall>n v. actual n = Some v \<longrightarrow> formal n = Some (value_kind v))"

lemma flagParse_well_kinded:
  "flagParse h formal actual args = Inr (actual', rest) \<Longrightarrow> well_kinded formal actual \<Longrightarrow> well_kinded formal actual'"
proof (induction h formal actual args rule: flagParse.induct)
  case (1 h formal actual args)
  show ?case
  proof (cases "parseOne h formal args")
    case (Inl e)
    with "1.prems" show ?thesis by (simp add: flagParse.simps [of h formal actual args])
  next
    case (Inr r)
    show ?thesis
    proof (cases r)
      case (ArgsFrom as)
      with "1.prems" Inr show ?thesis by (simp add: flagParse.simps [of h formal actual args])
    next
      case (FlagGiven n v as)
      with Inr have "formal n = Some (value_kind v)" using parseOne_flag(2) flagSet_kind by metis
      then have "well_kinded formal (actual(n \<mapsto> v))" using "1.prems"(2) by (simp add: well_kinded_def)
      with "1.IH" [OF Inr FlagGiven] "1.prems" Inr FlagGiven show ?thesis
        by (simp add: flagParse.simps [of h formal actual args] fun_upd_def)
    qed
  qed
qed

lemma formal_bound: "(n, st) \<in> set boundFlags \<Longrightarrow> formalFlags n = Some (setterKind st)"
proof -
  assume m: "(n, st) \<in> set boundFlags"
  have d: "distinct (map fst (map (\<lambda>(n, st). (n, setterKind st)) boundFlags))"
    using distinct_names by (simp add: bound_names [symmetric] o_def split_def)
  have "n \<in> set (map flag_name flag_keys)" using m bound_names [symmetric] by (metis (no_types) fst_conv imageI list.set_map)
  then have "n \<noteq> ''config''" using flag_names_wf by (auto simp: list_all_iff)
  moreover have "map_of (map (\<lambda>(n, st). (n, setterKind st)) boundFlags) n = Some (setterKind st)"
    using m by (intro map_of_is_SomeI [OF d]) force
  ultimately show ?thesis by (simp add: formalFlags_def)
qed

lemma formal_kind: "formalFlags (flag_name k) = Some (setting_kind k)"
proof -
  have "map (\<lambda>(n, st). (n, setterKind st)) boundFlags = zip (map fst boundFlags) (map (setterKind \<circ> snd) boundFlags)"
    by (simp add: zip_map_map zip_same_conv_map split_def)
  then have m: "map (\<lambda>(n, st). (n, setterKind st)) boundFlags = map (\<lambda>k. (flag_name k, setting_kind k)) flag_keys"
    unfolding bound_names bound_kinds by (simp add: zip_map_map zip_same_conv_map)
  have "(flag_name k, setting_kind k) \<in> set (map (\<lambda>k. (flag_name k, setting_kind k)) flag_keys)"
    using UNIV_setting by auto
  then obtain st where "(flag_name k, st) \<in> set boundFlags" "setterKind st = setting_kind k"
    unfolding m [symmetric] by auto
  then show ?thesis using formal_bound by metis
qed

lemma sorted_flags_distinct: "distinct (map fst (sort_key fst boundFlags))"
proof -
  have "mset (map fst (sort_key fst boundFlags)) = mset (map fst boundFlags)" by (simp add: mset_map)
  then show ?thesis using distinct_names unfolding bound_names [symmetric] by (metis mset_eq_imp_distinct_iff)
qed

text \<open>The configuration of the flags: exactly the settings whose flag was given.\<close>

lemma fromFlags_lookup:
  assumes "well_kinded formalFlags actual"
  shows "lookup_setting k (fromFlags actual) = map_option setting_of (actual (flag_name k))"
proof -
  have sub: "set (sort_key fst boundFlags) \<subseteq> set boundFlags" by simp
  have "distinct (map fst (sort_key fst boundFlags))" by (rule sorted_flags_distinct)
  moreover have "\<forall>(n, st)\<in>set (sort_key fst boundFlags). \<forall>v. actual n = Some v \<longrightarrow> value_kind v = setterKind st"
    using assms formal_bound by (fastforce simp: well_kinded_def)
  moreover have "flag_name k \<in> set (map fst (sort_key fst boundFlags))"
  proof -
    have "flag_name k \<in> set (map fst boundFlags)" using UNIV_setting by (auto simp: bound_names)
    then show ?thesis by simp
  qed
  moreover have "lookup_setting k zero_config = None" by (cases k) (simp_all add: zero_config_def)
  ultimately show ?thesis
    unfolding fromFlags_def using fold_flags [OF sub] by (simp split: option.splits)
qed

text \<open>An argument that gives a flag a value, and its reading.\<close>

definition flag_arg :: "string \<times> string \<Rightarrow> string" where
  "flag_arg = (\<lambda>(n, t). ''-'' @ n @ ''='' @ t)"

definition wf_name :: "string \<Rightarrow> bool" where
  "wf_name n \<longleftrightarrow> n \<noteq> [] \<and> hd n \<noteq> CHR ''-'' \<and> CHR ''='' \<notin> set n"

lemma formal_wf: "formalFlags n = Some kind \<Longrightarrow> wf_name n"
proof (cases "n = ''config''")
  case False
  assume "formalFlags n = Some kind"
  with False have "n \<in> fst ` set boundFlags" by (force simp: formalFlags_def dest!: map_of_SomeD)
  then have "n \<in> set (map flag_name flag_keys)" by (simp flip: bound_names)
  then show ?thesis using flag_names_wf by (auto simp: list_all_iff wf_name_def)
qed (simp add: wf_name_def)

lemma parseOne_arg:
  assumes "formal n = Some kind" "wf_name n" "flagSet h n kind t = Inr v"
  shows "parseOne h formal (flag_arg (n, t) # args) = Inr (FlagGiven n v args)"
proof -
  obtain c n' where n: "n = c # n'" "c \<noteq> CHR ''-''" "c \<noteq> CHR ''=''" "CHR ''='' \<notin> set n'"
    using assms(2) by (cases n) (auto simp: wf_name_def)
  have tw: "takeWhile (\<lambda>c. c \<noteq> CHR ''='') (n' @ CHR ''='' # t) = n'" using n(4) by simp
  show ?thesis
    using assms(1,3) n by (cases "kind = BoolKind") (simp_all add: parseOne_def flag_arg_def Let_def tw)
qed

lemma parseOne_arg2:
  assumes "formal n = Some kind" "wf_name n" "kind \<noteq> BoolKind" "flagSet h n kind t = Inr v"
  shows "parseOne h formal ((''--'' @ n) # t # args) = Inr (FlagGiven n v args)"
proof -
  obtain c n' where n: "n = c # n'" "c \<noteq> CHR ''-''" "c \<noteq> CHR ''=''" "CHR ''='' \<notin> set n'"
    using assms(2) by (cases n) (auto simp: wf_name_def)
  have tw: "takeWhile (\<lambda>c. c \<noteq> CHR ''='') n' = n'" using n(4) by (simp add: takeWhile_neq_all)
  show ?thesis
    using assms(1,3,4) n by (simp add: parseOne_def Let_def tw)
qed

text \<open>The value a list of assignments leaves for each flag: the last one.\<close>

definition assigned :: "host \<Rightarrow> (string \<times> string) list \<Rightarrow> (string \<rightharpoonup> flag_value) \<Rightarrow> (string \<rightharpoonup> flag_value)" where
  "assigned h ps actual = fold (\<lambda>(n, t) a. a(n \<mapsto> projr (flagSet h n (the (formalFlags n)) t))) ps actual"

definition legal :: "host \<Rightarrow> string \<times> string \<Rightarrow> bool" where
  "legal h = (\<lambda>(n, t). case formalFlags n of None \<Rightarrow> False | Some kind \<Rightarrow> \<not> isl (flagSet h n kind t))"

lemma legalE:
  assumes "legal h (n, t)"
  obtains kind v where "formalFlags n = Some kind" "flagSet h n kind t = Inr v"
  using assms by (cases "flagSet h n (the (formalFlags n)) t") (auto simp: legal_def split: option.splits)

lemma flagParse_args:
  "list_all (legal h) ps \<Longrightarrow>
     flagParse h formalFlags actual (map flag_arg ps @ rest) = flagParse h formalFlags (assigned h ps actual) rest"
proof (induction ps arbitrary: actual)
  case (Cons p ps)
  obtain n t where p: "p = (n, t)" by (cases p)
  with Cons.prems have "legal h (n, t)" by simp
  then obtain kind v where f: "formalFlags n = Some kind" "flagSet h n kind t = Inr v" by (rule legalE)
  have "flagParse h formalFlags actual (map flag_arg (p # ps) @ rest) =
      flagParse h formalFlags (actual(n \<mapsto> v)) (map flag_arg ps @ rest)"
    using parseOne_arg [of formalFlags n kind h t v "map flag_arg ps @ rest"] formal_wf [OF f(1)] f p
    by (subst flagParse.simps) simp
  with Cons f p show ?case by (simp add: assigned_def)
qed (simp add: assigned_def)

lemma fold_no_flag:
  "n \<notin> set (map fst fs) \<Longrightarrow>
     fold (\<lambda>(m, st) c. case [n \<mapsto> v] m of None \<Rightarrow> c | Some v \<Rightarrow> applySetter st v c) fs c = c"
  by (induction fs arbitrary: c) auto

lemma fold_one_flag:
  "(n, st) \<in> set fs \<Longrightarrow> distinct (map fst fs) \<Longrightarrow>
     fold (\<lambda>(m, st) c. case [n \<mapsto> v] m of None \<Rightarrow> c | Some v \<Rightarrow> applySetter st v c) fs c = applySetter st v c"
proof (induction fs arbitrary: c)
  case (Cons f fs)
  obtain m st' where f: "f = (m, st')" by (cases f)
  show ?case
  proof (cases "m = n")
    case True
    with Cons.prems f have "st' = st" by (metis eq_key_imp_eq_value list.set_intros(1))
    with True Cons.prems f fold_no_flag [of n fs v] show ?thesis by simp
  next
    case False
    with Cons f show ?thesis by simp
  qed
qed simp

lemma fromFlags_one: "(n, st) \<in> set boundFlags \<Longrightarrow> fromFlags [n \<mapsto> v] = applySetter st v zero_config"
  unfolding fromFlags_def by (rule fold_one_flag) (simp_all add: sorted_flags_distinct)

lemma parsed_well_kinded: "flagParse h formal Map.empty args = Inr (actual, rest) \<Longrightarrow> well_kinded formal actual"
  by (erule flagParse_well_kinded) (simp add: well_kinded_def)

lemma lookup_zero [simp]: "lookup_setting k zero_config = None"
  by (cases k) (simp_all add: zero_config_def)

lemma effective_flag: "k \<notin> {KListen, KReplicaListen, KReplicaFallback} \<Longrightarrow> effective raw k = raw k"
  by (simp add: effective_def)

text \<open>
  A loaded configuration and the sources behind the flags: what those say of a setting, and how
  the flags overlay it.
\<close>

definition overlay :: "(string \<rightharpoonup> flag_value) \<Rightarrow> (setting \<Rightarrow> setting_value option) \<Rightarrow> setting \<Rightarrow> setting_value option" where
  "overlay actual below k =
     (case actual (flag_name k) of None \<Rightarrow> below k | Some v \<Rightarrow> Some (setting_of v))"

lemma loaded_settings:
  assumes "flagParse h formalFlags Map.empty args = Inr (actual, rest)" "LoadCfg h (Some (fromFlags actual)) path = Inr c"
  obtains below where "\<And>k. lookup_setting k c = effective (overlay actual below) k"
    "\<And>c' k. LoadCfg h None path = Inr c' \<Longrightarrow> lookup_setting k c' = effective below k"
proof -
  obtain ds where ds: "sources h (Some (fromFlags actual)) path = Inr ds"
    "\<And>k. lookup_setting k c = effective (\<lambda>k. first_some (map (lookup_setting k) ds)) k"
    using LoadCfg_effective [OF assms(2)] by metis
  obtain xs where xs: "ds = fromFlags actual # xs" using ds(1) by (auto simp: sources_def bindR_Inr_iff)
  let ?below = "\<lambda>k. first_some (map (lookup_setting k) xs)"
  have "first_some (map (lookup_setting k) ds) = overlay actual ?below k" for k
    using fromFlags_lookup [OF parsed_well_kinded [OF assms(1)], of k]
    by (simp add: xs overlay_def split: option.split)
  then have top: "lookup_setting k c = effective (overlay actual ?below) k" for k
    by (simp add: ds(2) ext)
  have "lookup_setting k c' = effective ?below k" if c': "LoadCfg h None path = Inr c'" for c' k
  proof -
    obtain ds' where ds': "sources h None path = Inr ds'"
      "\<And>k. lookup_setting k c' = effective (\<lambda>k. first_some (map (lookup_setting k) ds')) k"
      using LoadCfg_effective [OF c'] by metis
    then have "ds' = zero_config # xs" using ds(1) xs by (auto simp: sources_def bindR_Inr_iff split: if_splits)
    then show ?thesis using ds'(2) by simp
  qed
  with top that show thesis by blast
qed

lemma loaded_flag:
  assumes "flagParse h formalFlags Map.empty args = Inr (actual, rest)" "LoadCfg h (Some (fromFlags actual)) path = Inr c"
    "k \<notin> {KListen, KReplicaListen, KReplicaFallback}" "actual (flag_name k) = Some v"
  shows "lookup_setting k c = Some (setting_of v)"
proof -
  from loaded_settings [OF assms(1,2)] obtain below where "lookup_setting k c = effective (overlay actual below) k" by metis
  then show ?thesis using assms(4) effective_flag [OF assms(3)] by (simp add: overlay_def)
qed

text \<open>The flags on which the value of a setting depends.\<close>

definition affected_by :: "setting \<Rightarrow> setting set" where
  "affected_by k =
     (if k \<in> {KListen, KReplicaFallback} then {k, KReplicaListen} else {k})"

lemma effective_affected:
  assumes "\<And>j. j \<in> affected_by k \<Longrightarrow> raw j = raw' j"
  shows "effective raw k = effective raw' k"
proof -
  have "raw k = raw' k" using assms [of k] by (simp add: affected_by_def)
  moreover have "k \<in> {KListen, KReplicaListen, KReplicaFallback} \<Longrightarrow> raw KReplicaListen = raw' KReplicaListen"
    using assms [of KReplicaListen] by (auto simp: affected_by_def)
  ultimately show ?thesis
    by (cases "k \<in> {KListen, KReplicaListen, KReplicaFallback}"; elim insertE emptyE | simp add: effective_flag)
      (auto simp: effective_def)
qed

text \<open>What the assignments of a command line leave for each flag.\<close>

lemma assigned_last:
  "assigned h ps actual n =
     (case map_of (rev ps) n of None \<Rightarrow> actual n | Some t \<Rightarrow> Some (projr (flagSet h n (the (formalFlags n)) t)))"
proof (induction ps arbitrary: actual)
  case (Cons p ps)
  obtain m t where p: "p = (m, t)" by (cases p)
  have "assigned h (p # ps) actual = assigned h ps (actual(m \<mapsto> projr (flagSet h m (the (formalFlags m)) t)))"
    by (simp add: assigned_def p)
  then show ?case using Cons.IH p by (auto simp: map_add_def split: option.splits)
qed (simp add: assigned_def)

text \<open>Where the flags end: at the end of the arguments, at the first that is no flag, or at \<open>--\<close>.\<close>

definition no_flag :: "string list \<Rightarrow> bool" where
  "no_flag rest \<longleftrightarrow> rest = [] \<or> length (hd rest) < 2 \<or> hd rest ! 0 \<noteq> CHR ''-''"

lemma flagParse_end:
  "no_flag rest \<Longrightarrow> flagParse h formal actual rest = Inr (actual, rest)"
  "flagParse h formal actual (''--'' # rest) = Inr (actual, rest)"
  by (cases rest) (auto simp: flagParse.simps [of h formal actual] parseOne_def no_flag_def)

lemma map_of_flag_names: "map_of (map (\<lambda>(k, t). (flag_name k, t)) ps) (flag_name k) = map_of ps k"
  by (induction ps) auto

lemma map_of_no_name: "n \<notin> range flag_name \<Longrightarrow> map_of (map (\<lambda>(k, t). (flag_name k, t)) ps) n = None"
  by (induction ps) auto

section \<open>Properties\<close>

text \<open>
  C24. The command line is read back into the settings: arguments \<open>-name=value\<close> with the documented
  name of a setting and a text of the setting's documented kind, in any number and order, parse
  without error, and the configuration made of them holds for each setting the last value
  given to it and nothing for the others. What follows the flags, from the first argument that
  is no flag or after \<open>--\<close>, is left as it is.
\<close>

theorem flags_read_back:
  assumes "\<forall>(k, t)\<in>set ps. \<not> isl (flagSet h (flag_name k) (setting_kind k) t)"
    "no_flag rest \<and> rest' = rest \<or> rest = ''--'' # rest'"
  shows "\<exists>actual. flagParse h formalFlags Map.empty (map (\<lambda>(k, t). ''-'' @ flag_name k @ ''='' @ t) ps @ rest) =
      Inr (actual, rest') \<and>
    (\<forall>k. lookup_setting k (fromFlags actual) =
       map_option (\<lambda>t. setting_of (projr (flagSet h (flag_name k) (setting_kind k) t))) (map_of (rev ps) k)) \<and>
    actual ''config'' = None"
proof -
  let ?qs = "map (\<lambda>(k, t). (flag_name k, t)) ps"
  have args: "map (\<lambda>(k, t). ''-'' @ flag_name k @ ''='' @ t) ps = map flag_arg ?qs"
    by (simp add: flag_arg_def split_def)
  have legal: "list_all (legal h) ?qs"
    using assms(1) by (auto simp: list_all_iff legal_def formal_kind)
  have parse: "flagParse h formalFlags Map.empty (map flag_arg ?qs @ rest) = Inr (assigned h ?qs Map.empty, rest')"
    unfolding flagParse_args [OF legal] using assms(2) flagParse_end by metis
  have "assigned h ?qs Map.empty (flag_name k) =
      map_option (\<lambda>t. projr (flagSet h (flag_name k) (setting_kind k) t)) (map_of (rev ps) k)" for k
    by (simp add: assigned_last rev_map map_of_flag_names formal_kind split: option.split)
  then have "lookup_setting k (fromFlags (assigned h ?qs Map.empty)) =
      map_option (\<lambda>t. setting_of (projr (flagSet h (flag_name k) (setting_kind k) t))) (map_of (rev ps) k)" for k
    using fromFlags_lookup [OF parsed_well_kinded [OF parse], of k] by (simp add: option.map_comp o_def)
  moreover have "''config'' \<notin> range flag_name"
    using flag_names_wf UNIV_setting by (auto simp: list_all_iff)
  then have "assigned h ?qs Map.empty ''config'' = None"
    by (simp add: assigned_last rev_map map_of_no_name)
  ultimately show ?thesis using parse args by metis
qed

theorem flags_read_back_witness:
  "\<exists>actual. flagParse sample_host formalFlags Map.empty
      [''-max-connections=7'', ''-listen=:1'', ''-max-connections=0x1_0'', ''x'', ''-y''] = Inr (actual, [''x'', ''-y'']) \<and>
    lookup_setting KMaxConnections (fromFlags actual) = Some (VInt 16) \<and>
    lookup_setting KListen (fromFlags actual) = Some (VStr '':1'') \<and> lookup_setting KMaster (fromFlags actual) = None"
proof -
  let ?ps = "[(KMaxConnections, ''7''), (KListen, '':1''), (KMaxConnections, ''0x1_0'')]"
  have i: "ParseInt0 ''7'' = Inr 7" "ParseInt0 ''0x1_0'' = Inr 16"
    by (simp_all add: ParseInt0_def parseUint0_def base0_def digitOf_def is_digit_def digit_val_def lower_def
        maxUint64_def underscoreOK_def basePrefix_def)
  then have l: "\<forall>(k, t)\<in>set ?ps. \<not> isl (flagSet sample_host (flag_name k) (setting_kind k) t)"
    by (simp add: setting_kind_def flagSet_def)
  have n: "no_flag [''x'', ''-y''] \<and> [''x'', ''-y''] = [''x'', ''-y''] \<or> [''x'', ''-y''] = ''--'' # [''x'', ''-y'']"
    by (simp add: no_flag_def)
  from flags_read_back [OF l n] obtain actual where a:
    "flagParse sample_host formalFlags Map.empty
       (map (\<lambda>(k, t). ''-'' @ flag_name k @ ''='' @ t) ?ps @ [''x'', ''-y'']) = Inr (actual, [''x'', ''-y''])"
    "\<forall>k. lookup_setting k (fromFlags actual) =
       map_option (\<lambda>t. setting_of (projr (flagSet sample_host (flag_name k) (setting_kind k) t))) (map_of (rev ?ps) k)"
    by blast
  have "lookup_setting KMaxConnections (fromFlags actual) = Some (VInt 16)"
    "lookup_setting KListen (fromFlags actual) = Some (VStr '':1'')" "lookup_setting KMaster (fromFlags actual) = None"
    by (simp_all add: a(2) [rule_format] setting_kind_def flagSet_def i)
  with a(1) show ?thesis by (intro exI [of _ actual]) simp
qed

text \<open>
  C23. An explicit flag wins: whatever the environment and the file say, a setting whose flag was
  given on the command line has, in the loaded configuration, the value of that flag. Of the
  two listen addresses this holds when the value is not empty, an empty \<open>-replica-listen\<close>
  switches that endpoint off, and the fallback policy is kept as long as the replica endpoint is
  on. A setting is not affected by the flags of other settings, except that
  \<open>-replica-listen\<close> also decides whether a default listen address and the fallback policy are
  needed.
\<close>

theorem explicit_flag_wins:
  assumes "flagParse h formalFlags Map.empty args = Inr (actual, rest)"
    "LoadCfg h (Some (fromFlags actual)) path = Inr c"
  shows "(\<forall>k v. actual (flag_name k) = Some v \<longrightarrow>
      (k \<in> {KListen, KReplicaListen} \<longrightarrow> v \<noteq> FStr []) \<longrightarrow> (k = KReplicaFallback \<longrightarrow> ReplicaListen c \<noteq> None) \<longrightarrow>
      lookup_setting k c = Some (setting_of v)) \<and>
    (actual ''replica-listen'' = Some (FStr []) \<longrightarrow> ReplicaListen c = None \<and> ReplicaFallback c = None) \<and>
    (\<forall>k c'. LoadCfg h None path = Inr c' \<longrightarrow> (\<forall>j\<in>affected_by k. actual (flag_name j) = None) \<longrightarrow>
      lookup_setting k c = lookup_setting k c')"
proof -
  obtain below where b: "\<And>k. lookup_setting k c = effective (overlay actual below) k"
    "\<And>c' k. LoadCfg h None path = Inr c' \<Longrightarrow> lookup_setting k c' = effective below k"
    using loaded_settings [OF assms] by metis
  have str: "\<exists>s. v = FStr s" if "actual (flag_name k) = Some v" "k \<in> {KListen, KReplicaListen}" for k v
    using parsed_well_kinded [OF assms(1)] that formal_kind [of k]
    by (cases v) (auto simp: well_kinded_def setting_kind_def)
  have "lookup_setting k c = Some (setting_of v)"
    if v: "actual (flag_name k) = Some v" "k \<in> {KListen, KReplicaListen} \<longrightarrow> v \<noteq> FStr []"
      "k = KReplicaFallback \<longrightarrow> ReplicaListen c \<noteq> None" for k v
  proof -
    have o: "overlay actual below k = Some (setting_of v)" using v(1) by (simp add: overlay_def)
    consider "k \<notin> {KListen, KReplicaListen, KReplicaFallback}" | "k \<in> {KListen, KReplicaListen}" | "k = KReplicaFallback" by blast
    then show ?thesis
    proof cases
      case 1
      then show ?thesis using b(1) [of k] o by (simp add: effective_flag)
    next
      case 2
      then obtain s where "v = FStr s" "s \<noteq> []" using str [OF v(1)] v(2) by blast
      then show ?thesis using b(1) [of k] o 2 by (auto simp: effective_def no_address_def)
    next
      case 3
      then have "lookup_setting KReplicaListen c \<noteq> None" using v(3) by simp
      then show ?thesis using b(1) [of k] b(1) [of KReplicaListen] o 3 by (auto simp: effective_def split: if_splits)
    qed
  qed
  moreover have "ReplicaListen c = None \<and> ReplicaFallback c = None" if "actual ''replica-listen'' = Some (FStr [])"
    using b(1) [of KReplicaListen] b(1) [of KReplicaFallback] that by (simp add: effective_def overlay_def)
  moreover have "lookup_setting k c = lookup_setting k c'"
    if c': "LoadCfg h None path = Inr c'" and n: "\<forall>j\<in>affected_by k. actual (flag_name j) = None" for k c'
    unfolding b(1) b(2) [OF c'] using n by (intro effective_affected) (simp add: overlay_def)
  ultimately show ?thesis by blast
qed

theorem explicit_flag_wins_witness:
  "\<exists>c. flagParse sample_host formalFlags Map.empty [''-master=cli''] = Inr ([''master'' \<mapsto> FStr ''cli''], []) \<and>
     LoadCfg sample_host (Some (fromFlags [''master'' \<mapsto> FStr ''cli''])) ''c.yaml'' = Inr c \<and>
     lookup_setting KMaster c = Some (VStr ''cli'')"
proof -
  have f: "formalFlags ''master'' = Some StrKind" by (simp add: formalFlags_def boundFlags_def)
  have p: "flagParse sample_host formalFlags Map.empty [''-master=cli''] = Inr ([''master'' \<mapsto> FStr ''cli''], [])"
    using flagParse_args [of sample_host "[(''master'', ''cli'')]" Map.empty "[]"] f
    by (simp add: legal_def flagSet_def flag_arg_def assigned_def flagParse.simps [of _ _ _ "[]"] parseOne_def)
  have "fromFlags [''master'' \<mapsto> FStr ''cli''] = zero_config\<lparr>Master := Some ''cli''\<rparr>"
    by (subst fromFlags_one [where st = "SetStr (\<lambda>v c. c\<lparr>Master := Some v\<rparr>)"]) (simp_all add: boundFlags_def)
  then have "\<exists>c. LoadCfg sample_host (Some (fromFlags [''master'' \<mapsto> FStr ''cli''])) ''c.yaml'' = Inr c"
    unfolding LoadCfg_def mergeSources_foldl sample_sources
    by (simp add: Merge_def Default_def zero_config_def
      mergeSentinelTLS_def mergeListenTLS_def mergeMasterTLS_def ensureBackendTLS_def ensureListenTLS_def
      zero_backendTLS_def zero_listenTLS_def sentinelTLSConfig_def listenTLSConfig_def
      masterTLSConfig_def boolSet_def strSet_def Let_def)
  then obtain c where c: "LoadCfg sample_host (Some (fromFlags [''master'' \<mapsto> FStr ''cli''])) ''c.yaml'' = Inr c" by blast
  from explicit_flag_wins [OF p c] have "lookup_setting KMaster c = Some (setting_of (FStr ''cli''))"
    by (elim conjE allE [of _ KMaster]) simp
  with p c show ?thesis by (metis setting_of.simps(1))
qed

end
