(* ===== verification/Program.thy ===== *)
theory Program
  imports Lifecycle Flags
begin

text \<open>
  The program from its command line on: \<open>main\<close> in \<open>main.go\<close>, the version information of
  \<open>pkg/config/version.go\<close>, and the two copies of the YAML hook of durations
  (\<open>pkg/config/config.go\<close> and \<open>pkg/types/duration.go\<close>). What \<open>main\<close> uses of the packages \<open>time\<close>
  and \<open>strings\<close> is modelled too. The properties connect the command line with the running
  process of \<open>Lifecycle\<close>.
\<close>

section \<open>Definitions\<close>

subsection \<open>Durations in YAML\<close>

text \<open>
  \<open>UnmarshalYAML\<close>: the method \<open>Decode\<close> of the third-party node is the parameter \<open>decode\<close>; the
  receiver is only assigned on success.
\<close>

datatype unmarshal_error = DecodeFailed string | InvalidDuration string

definition UnmarshalYAML ::
  "host \<Rightarrow> ('node \<Rightarrow> string + string) \<Rightarrow> 'node \<Rightarrow> Duration \<Rightarrow> unmarshal_error option \<times> Duration" where
  "UnmarshalYAML h decode node d =
     (case decode node of
        Inl e \<Rightarrow> (Some (DecodeFailed e), d)
      | Inr s \<Rightarrow> (case ParseDuration h s of None \<Rightarrow> (Some (InvalidDuration s), d) | Some parsed \<Rightarrow> (None, parsed)))"

definition types_UnmarshalYAML ::
  "host \<Rightarrow> ('node \<Rightarrow> string + string) \<Rightarrow> 'node \<Rightarrow> Duration \<Rightarrow> unmarshal_error option \<times> Duration" where
  "types_UnmarshalYAML h decode node d =
     (case decode node of
        Inl e \<Rightarrow> (Some (DecodeFailed e), d)
      | Inr s \<Rightarrow> (case ParseDuration h s of None \<Rightarrow> (Some (InvalidDuration s), d) | Some parsed \<Rightarrow> (None, parsed)))"

subsection \<open>time.Parse for the layout of the build time\<close>

text \<open>
  \<open>time.Parse\<close> with the layout \<open>2006-01-02T15:04:05Z0700\<close>: a point in time with its zone
  offset in minutes (\<open>Z\<close> is zero). Fixed two-digit numbers, except that the hour may have one
  digit; a fraction of a second is accepted although the layout has none.
\<close>

record timestamp =
  tYear :: nat
  tMonth :: nat
  tDay :: nat
  tHour :: nat
  tMinute :: nat
  tSecond :: nat
  tNanos :: nat
  tOffset :: int

definition zeroTime :: timestamp where
  "zeroTime = \<lparr>tYear = 1, tMonth = 1, tDay = 1, tHour = 0, tMinute = 0, tSecond = 0, tNanos = 0, tOffset = 0\<rparr>"

definition getnum :: "string \<Rightarrow> bool \<Rightarrow> (nat \<times> string) option" where
  "getnum s fixd =
     (case s of
        [] \<Rightarrow> None
      | c # s1 \<Rightarrow>
          if \<not> is_digit c then None
          else (case s1 of
                  [] \<Rightarrow> if fixd then None else Some (digit_val c, s1)
                | d # s2 \<Rightarrow>
                    if is_digit d then Some (digit_val c * 10 + digit_val d, s2)
                    else if fixd then None else Some (digit_val c, s1)))"

definition getyear :: "string \<Rightarrow> (nat \<times> string) option" where
  "getyear s =
     (if 4 \<le> length s \<and> list_all is_digit (take 4 s)
      then Some (foldl (\<lambda>n c. n * 10 + digit_val c) 0 (take 4 s), drop 4 s) else None)"

definition skipChar :: "char \<Rightarrow> string \<Rightarrow> string option" where
  "skipChar c s = (case s of [] \<Rightarrow> None | d # s' \<Rightarrow> if d = c then Some s' else None)"

definition isLeap :: "nat \<Rightarrow> bool" where
  "isLeap y \<longleftrightarrow> y mod 4 = 0 \<and> (y mod 100 \<noteq> 0 \<or> y mod 400 = 0)"

definition daysIn :: "nat \<Rightarrow> nat \<Rightarrow> nat" where
  "daysIn m y = (if m = 2 then (if isLeap y then 29 else 28) else if m \<in> {4, 6, 9, 11} then 30 else 31)"

definition getfraction :: "string \<Rightarrow> nat \<times> string" where
  "getfraction s =
     (if 2 \<le> length s \<and> (s ! 0 = CHR ''.'' \<or> s ! 0 = CHR '','') \<and> is_digit (s ! 1)
      then let ds = take 9 (takeWhile is_digit (tl s))
           in (foldl (\<lambda>n c. n * 10 + digit_val c) 0 ds * 10 ^ (9 - length ds), dropWhile is_digit (tl s))
      else (0, s))"

definition getzone :: "string \<Rightarrow> (int \<times> string) option" where
  "getzone s =
     (if take 1 s = ''Z'' then Some (0, drop 1 s)
      else if length s < 5 then None
      else case (getnum (take 2 (drop 1 s)) True, getnum (take 2 (drop 3 s)) True) of
        (Some (hr, _), Some (mm, _)) \<Rightarrow>
          if 24 < hr \<or> 60 < mm then None
          else if s ! 0 = CHR ''+'' then Some (int (hr * 60 + mm), drop 5 s)
          else if s ! 0 = CHR ''-'' then Some (- int (hr * 60 + mm), drop 5 s)
          else None
      | _ \<Rightarrow> None)"

definition inRange :: "nat \<Rightarrow> nat \<Rightarrow> (nat \<times> string) option \<Rightarrow> (nat \<times> string) option" where
  "inRange lo hi x = (case x of None \<Rightarrow> None | Some (n, s) \<Rightarrow> if lo \<le> n \<and> n \<le> hi then Some (n, s) else None)"

definition ParseISO8601 :: "string \<Rightarrow> timestamp option" where
  "ParseISO8601 s0 =
     Option.bind (getyear s0) (\<lambda>(y, s1). Option.bind (skipChar (CHR ''-'') s1) (\<lambda>s2.
     Option.bind (inRange 1 12 (getnum s2 True)) (\<lambda>(mo, s3). Option.bind (skipChar (CHR ''-'') s3) (\<lambda>s4.
     Option.bind (getnum s4 True) (\<lambda>(d, s5). Option.bind (skipChar (CHR ''T'') s5) (\<lambda>s6.
     Option.bind (inRange 0 23 (getnum s6 False)) (\<lambda>(h, s7). Option.bind (skipChar (CHR '':'') s7) (\<lambda>s8.
     Option.bind (inRange 0 59 (getnum s8 True)) (\<lambda>(mi, s9). Option.bind (skipChar (CHR '':'') s9) (\<lambda>s10.
     Option.bind (inRange 0 59 (getnum s10 True)) (\<lambda>(sec, s11).
     case getfraction s11 of (ns, s12) \<Rightarrow>
     Option.bind (getzone s12) (\<lambda>(z, s13).
     if s13 \<noteq> [] \<or> d < 1 \<or> daysIn mo y < d then None
     else Some \<lparr>tYear = y, tMonth = mo, tDay = d, tHour = h, tMinute = mi, tSecond = sec, tNanos = ns, tOffset = z\<rparr>))))))))))))"

subsection \<open>Version\<close>

record version =
  vBuildDate :: timestamp
  vCompiler :: string
  vGitCommit :: string
  vGitTreeState :: string
  vGitVersion :: string
  vGoVersion :: string
  vPlatform :: string
  vExecutable :: string

text \<open>What the Go runtime and the operating system say about the binary.\<close>

record runtime =
  rtCompiler :: string
  rtVersion :: string
  rtGOOS :: string
  rtGOARCH :: string
  osExecutable :: "string option"

definition NewVersion :: "runtime \<Rightarrow> timestamp \<Rightarrow> string \<Rightarrow> string \<Rightarrow> string \<Rightarrow> version" where
  "NewVersion rt buildDate gitCommit tag treeState =
     \<lparr>vBuildDate = buildDate, vCompiler = rtCompiler rt, vGitCommit = gitCommit, vGitTreeState = treeState,
      vGitVersion = tag, vGoVersion = rtVersion rt, vPlatform = rtGOOS rt @ ''/'' @ rtGOARCH rt,
      vExecutable = (case osExecutable rt of Some exePath \<Rightarrow> exePath | None \<Rightarrow> [])\<rparr>"

text \<open>\<open>String\<close>: the YAML encoder of the struct that wraps the version is a parameter; its error is dropped.\<close>

definition Version_String :: "(version \<Rightarrow> string option) \<Rightarrow> version \<Rightarrow> string" where
  "Version_String marshal v = (case marshal v of Some data \<Rightarrow> data | None \<Rightarrow> [])"

subsection \<open>main\<close>

fun Split :: "char \<Rightarrow> string \<Rightarrow> string list" where
  "Split sep [] = [[]]"
| "Split sep (c # s) = (if c = sep then [] # Split sep s else case Split sep s of p # ps \<Rightarrow> (c # p) # ps | [] \<Rightarrow> [[c]])"

text \<open>The variables that the linker sets.\<close>

record build =
  buildTag :: string
  gitCommit :: string
  buildTime :: string
  treeState :: string

definition pkgPath :: string where
  "pkgPath = ''github.com/zauberhaus/redis-sentinel-proxy/pkg/config''"

text \<open>\<open>name[len(name)-3]\<close> panics when the path has fewer than three elements.\<close>

definition execName :: "string \<Rightarrow> string option" where
  "execName path = (let name = Split (CHR ''/'') path in if length name < 3 then None else Some (name ! (length name - 3)))"

definition buildVersion :: "runtime \<Rightarrow> build \<Rightarrow> version option" where
  "buildVersion rt b =
     (let tag = (if buildTag b = [] then ''dev'' else buildTag b);
          tree = (if buildTag b = [] then ''dirty'' else treeState b);
          bt = (if buildTime b = [] then Some zeroTime else ParseISO8601 (buildTime b))
      in map_option (\<lambda>t. NewVersion rt t (gitCommit b) tag tree) bt)"

text \<open>
  \<open>main\<close> up to the goroutines of \<open>runProxying\<close>: it panics, exits with a status, or the process
  runs. \<open>flag.CommandLine\<close> exits with status 0 when help was asked for and 2 on any other
  error; \<open>log.Fatalf\<close> with 1. A nil dereference is a panic.
\<close>

datatype main_result = Panics | Exits nat | Runs string version config resolver "resolver proxy"

definition configFile :: "(string \<rightharpoonup> flag_value) \<Rightarrow> string" where
  "configFile actual = (case actual ''config'' of Some (FStr path) \<Rightarrow> path | _ \<Rightarrow> [])"

definition main_start ::
  "runtime \<Rightarrow> build \<Rightarrow> host \<Rightarrow> (string \<Rightarrow> tcpAddr option) \<Rightarrow> string list \<Rightarrow> main_result" where
  "main_start rt b h resolve args =
     (case (buildVersion rt b, execName pkgPath) of
        (Some version, Some exec) \<Rightarrow>
          (case flagParse h formalFlags Map.empty args of
             Inl HelpRequested \<Rightarrow> Exits 0
           | Inl _ \<Rightarrow> Exits 2
           | Inr (actual, _) \<Rightarrow>
               (case LoadCfg h (Some (fromFlags actual)) (configFile actual) of
                  Inl NilDeref \<Rightarrow> Panics
                | Inl _ \<Rightarrow> Exits 1
                | Inr cfg \<Rightarrow>
                    (case startProxying resolve cfg of
                       Inl NilPointer \<Rightarrow> Panics
                     | Inl _ \<Rightarrow> Exits 1
                     | Inr (r, p) \<Rightarrow> Runs exec version cfg r p)))
      | _ \<Rightarrow> Panics)"

section \<open>Facts\<close>

lemma execName_pkgPath [simp]: "execName pkgPath = Some ''redis-sentinel-proxy''"
  by (simp add: execName_def pkgPath_def)

lemma ParseISO8601_sample: "ParseISO8601 ''2024-02-29T7:05:09.25+0130'' = Some
   \<lparr>tYear = 2024, tMonth = 2, tDay = 29, tHour = 7, tMinute = 5, tSecond = 9, tNanos = 250000000, tOffset = 90\<rparr>"
  by (simp add: ParseISO8601_def getyear_def getnum_def inRange_def skipChar_def getfraction_def getzone_def
      daysIn_def isLeap_def is_digit_def digit_val_def)

lemma UnmarshalYAML_same: "types_UnmarshalYAML h decode node d = UnmarshalYAML h decode node d"
  by (simp add: types_UnmarshalYAML_def UnmarshalYAML_def)

lemma main_runs:
  assumes "main_start rt b h resolve args = Runs exec v cfg r p"
  obtains actual rest where "flagParse h formalFlags Map.empty args = Inr (actual, rest)"
    "LoadCfg h (Some (fromFlags actual)) (configFile actual) = Inr cfg" "startProxying resolve cfg = Inr (r, p)"
    "buildVersion rt b = Some v"
  using assms
  by (auto simp: main_start_def split: option.splits sum.splits flag_error.splits cfg_error.splits proxy_error.splits)

text \<open>A command line to evaluate.\<close>

definition sample_args :: "string list" where
  "sample_args = [''-max-connections=5'']"

definition sample_build :: build where
  "sample_build = \<lparr>buildTag = [], gitCommit = [], buildTime = ''2024-02-29T07:05:09Z'', treeState = []\<rparr>"

definition sample_rt :: runtime where
  "sample_rt = \<lparr>rtCompiler = ''gc'', rtVersion = ''go1'', rtGOOS = ''linux'', rtGOARCH = ''amd64'', osExecutable = None\<rparr>"

lemma sample_buildTime: "\<exists>t. ParseISO8601 (buildTime sample_build) = Some t"
  by (simp add: sample_build_def ParseISO8601_def getyear_def getnum_def inRange_def skipChar_def getfraction_def getzone_def
      daysIn_def isLeap_def is_digit_def digit_val_def)

lemma sample_args_parsed:
  "flagParse sample_host formalFlags Map.empty sample_args = Inr ([''max-connections'' \<mapsto> FInt 5], [])"
proof -
  have f: "formalFlags ''max-connections'' = Some IntKind" by (simp add: formalFlags_def boundFlags_def)
  have i: "ParseInt0 ''5'' = Inr 5"
    by (simp add: ParseInt0_def parseUint0_def base0_def digitOf_def is_digit_def digit_val_def maxUint64_def)
  show ?thesis
    using flagParse_args [of sample_host "[(''max-connections'', ''5'')]" Map.empty "[]"] f
    by (simp add: sample_args_def legal_def flagSet_def i flag_arg_def assigned_def flagParse.simps [of _ _ _ "[]"] parseOne_def)
qed

lemma sample_args_load:
  obtains c where "LoadCfg sample_host (Some (fromFlags [''max-connections'' \<mapsto> FInt 5])) [] = Inr c" "RouterMode c = Some False"
proof -
  have "fromFlags [''max-connections'' \<mapsto> FInt 5] = zero_config\<lparr>MaxConnections := Some 5\<rparr>"
    by (subst fromFlags_one [where st = "SetInt (\<lambda>v c. c\<lparr>MaxConnections := Some v\<rparr>)"]) (simp_all add: boundFlags_def)
  moreover have "sources sample_host (Some f) [] = Inr [f, zero_config\<lparr>Master := Some ''envgroup'',
      SentinelTLS := Some zero_backendTLS, ListenTLS := Some zero_listenTLS, MasterTLS := Some zero_backendTLS\<rparr>, Default]" for f
    by (simp add: sources_def sample_env)
  ultimately have "\<exists>c. LoadCfg sample_host (Some (fromFlags [''max-connections'' \<mapsto> FInt 5])) [] = Inr c \<and> RouterMode c = Some False"
    unfolding LoadCfg_def mergeSources_foldl
    by (simp add: Merge_def Default_def zero_config_def
      mergeSentinelTLS_def mergeListenTLS_def mergeMasterTLS_def ensureBackendTLS_def ensureListenTLS_def
      zero_backendTLS_def zero_listenTLS_def sentinelTLSConfig_def listenTLSConfig_def
      masterTLSConfig_def boolSet_def strSet_def Let_def)
  then show thesis using that by blast
qed

lemma sample_main_runs:
  obtains exec v cfg r p where "main_start sample_rt sample_build sample_host sample_resolve sample_args = Runs exec v cfg r p"
proof -
  obtain c where c: "LoadCfg sample_host (Some (fromFlags [''max-connections'' \<mapsto> FInt 5])) [] = Inr c" "RouterMode c = Some False"
    by (rule sample_args_load)
  obtain t where "ParseISO8601 (buildTime sample_build) = Some t" using sample_buildTime by blast
  then have v: "\<exists>v. buildVersion sample_rt sample_build = Some v" by (simp add: buildVersion_def Let_def sample_build_def)
  obtain r p where "startProxying sample_resolve c = Inr (r, p)"
    using loaded_start_error [OF c(1), of sample_resolve] c(2)
    by (cases "startProxying sample_resolve c") (auto simp: sample_resolve_def)
  with v c(1) that show thesis by (auto simp: main_start_def sample_args_parsed configFile_def)
qed

section \<open>Properties\<close>

text \<open>
  C12. The start of the program never panics: whatever the command line, the environment, the
  files and the resolution of addresses are, with a well-formed build time (or none) \<open>main\<close>
  either runs the proxy or exits, with status 0 for a request for help, 2 for any other error
  of the flags, and 1 only for a configuration that \<open>Load\<close> rejects, a listen address that does
  not resolve, or router mode without a master endpoint. A proxy that runs has an endpoint.
\<close>

theorem main_never_panics:
  assumes "buildTime b = [] \<or> ParseISO8601 (buildTime b) \<noteq> None"
  shows "case main_start rt b h resolve args of
      Panics \<Rightarrow> False
    | Exits n \<Rightarrow>
        (case flagParse h formalFlags Map.empty args of
           Inl e \<Rightarrow> n = (if e = HelpRequested then 0 else 2)
         | Inr (actual, _) \<Rightarrow> n = 1 \<and>
             (case LoadCfg h (Some (fromFlags actual)) (configFile actual) of
                Inl e \<Rightarrow> True
              | Inr cfg \<Rightarrow> resolve (the (Listen cfg)) = None \<or> resolve (the (ReplicaListen cfg)) = None \<or>
                  \<not> strSet (Listen cfg) \<and> RouterMode cfg = Some True))
    | Runs exec v cfg r p \<Rightarrow> exec = ''redis-sentinel-proxy'' \<and> (localAddr p \<noteq> None \<or> replicaAddr p \<noteq> None)"
proof -
  have "\<exists>v. buildVersion rt b = Some v" using assms by (cases "buildTime b") (auto simp: buildVersion_def Let_def)
  then obtain v where v: "buildVersion rt b = Some v" ..
  show ?thesis
  proof (cases "flagParse h formalFlags Map.empty args")
    case (Inl e)
    with v show ?thesis by (cases e) (simp_all add: main_start_def)
  next
    case (Inr ar)
    obtain actual rest where ar: "ar = (actual, rest)" by (cases ar)
    show ?thesis
    proof (cases "LoadCfg h (Some (fromFlags actual)) (configFile actual)")
      case e: (Inl e)
      moreover have "e \<noteq> NilDeref" using e LoadCfg_no_nil by metis
      ultimately show ?thesis using v Inr ar by (cases e) (simp_all add: main_start_def)
    next
      case c: (Inr cfg)
      show ?thesis
      proof (cases "startProxying resolve cfg")
        case e: (Inl e)
        with loaded_start_error [OF c e] v Inr ar c show ?thesis by (auto simp: main_start_def)
      next
        case rp: (Inr rp)
        obtain r p where "rp = (r, p)" by (cases rp)
        with rp have "localAddr p \<noteq> None \<or> replicaAddr p \<noteq> None"
          using New_proxy_fields(4) [OF startProxying_parts(2)] by blast
        with v Inr ar c rp \<open>rp = (r, p)\<close> show ?thesis by (simp add: main_start_def)
      qed
    qed
  qed
qed

theorem main_never_panics_witness:
  "\<exists>exec v cfg r p. main_start sample_rt sample_build sample_host sample_resolve sample_args = Runs exec v cfg r p \<and>
     (localAddr p \<noteq> None \<or> replicaAddr p \<noteq> None)"
proof -
  have "ParseISO8601 (buildTime sample_build) \<noteq> None" using sample_buildTime by auto
  then have ok: "buildTime sample_build = [] \<or> ParseISO8601 (buildTime sample_build) \<noteq> None" ..
  obtain exec v cfg r p where "main_start sample_rt sample_build sample_host sample_resolve sample_args = Runs exec v cfg r p"
    by (rule sample_main_runs)
  with main_never_panics [OF ok, where rt = sample_rt and h = sample_host and resolve = sample_resolve and args = sample_args]
  show ?thesis by auto
qed

text \<open>
  C11. From the command line to the service: in every state of a process that \<open>main\<close> started,
  whatever the environment and the configuration file say, no more sessions run than
  \<open>-max-connections\<close> allows (and there is no limit if that is not positive), the resolver asks
  the sentinel of \<open>-sentinel\<close> for the group of \<open>-master\<close> and gives up after
  \<open>-resolve-retries\<close>, and commands are routed as \<open>-router\<close> says.
\<close>

theorem command_line_reaches_service:
  assumes "main_start rt b h resolve args = Runs exec v cfg r0 p" "proc_reach p r0 W s" "\<forall>w\<in>W. go_world w"
    "flagParse h formalFlags Map.empty args = Inr (actual, rest)"
  shows "(\<forall>n. actual ''max-connections'' = Some (FInt n) \<longrightarrow>
      (if 0 < n then int (length (live (pServer s))) \<le> n else sem p = None)) \<and>
    (\<forall>m. actual ''master'' = Some (FStr m) \<longrightarrow> masterName (pResolver s) = m) \<and>
    (\<forall>a. actual ''sentinel'' = Some (FStr a) \<longrightarrow> oAddr (scOptions (sentinel (pResolver s))) = a) \<and>
    (\<forall>k. actual ''resolve-retries'' = Some (FInt k) \<longrightarrow> retryOnMasterResolveFail (pResolver s) = k) \<and>
    (\<forall>on. actual ''router'' = Some (FBool on) \<longrightarrow> router p = on)"
proof -
  from main_runs [OF assms(1)] assms(4) have l: "LoadCfg h (Some (fromFlags actual)) (configFile actual) = Inr cfg"
    and st: "startProxying resolve cfg = Inr (r0, p)" by auto
  note parts = startProxying_parts [OF st]
  note fl = loaded_flag [OF assms(4) l]
  have c: "configured (pResolver s) = configured r0"
    using proc_reach_running [OF assms(2) parts(1) assms(3)] configured_reaches by (auto simp: running_def)
  have n: "sem p = (if 0 < n then Some (nat n) else None)" "0 < n \<Longrightarrow> int (length (live (pServer s))) \<le> n"
    if "actual ''max-connections'' = Some (FInt n)" for n
  proof -
    have "MaxConnections cfg = Some n" using fl [of KMaxConnections] that by auto
    then show sem: "sem p = (if 0 < n then Some (nat n) else None)" using New_proxy_fields(9) [OF parts(2)] by simp
    have "serving (sem p) (pServer s)"
      using proc_reach_ok [OF assms(2) New_proxy_fields(4) [OF parts(2)]] by (simp add: proc_ok_def)
    with sem show "0 < n \<Longrightarrow> int (length (live (pServer s))) \<le> n" using serving_invariant [of "sem p" "pServer s"] by auto
  qed
  have r0: "masterName r0 = the (Master cfg)" "oAddr (scOptions (sentinel r0)) = the (Sentinel cfg)"
    "retryOnMasterResolveFail r0 = the (ResolveRetries cfg)"
    using parts(1) by (auto simp: NewRedisMasterResolver_def Let_def bindR_Inr_iff deref_def clientOptions_def split: option.splits)
  have rest: "actual ''master'' = Some (FStr m) \<Longrightarrow> Master cfg = Some m"
    "actual ''sentinel'' = Some (FStr a) \<Longrightarrow> Sentinel cfg = Some a"
    "actual ''resolve-retries'' = Some (FInt k) \<Longrightarrow> ResolveRetries cfg = Some k"
    "actual ''router'' = Some (FBool on) \<Longrightarrow> RouterMode cfg = Some on" for m a k on
    using fl [of KMaster] fl [of KSentinel] fl [of KResolveRetries] fl [of KRouter] by auto
  show ?thesis
    using n rest r0 c New_proxy_fields(12) [OF parts(2)] by (auto simp: configured_def)
qed

theorem command_line_reaches_service_witness:
  "\<exists>exec v cfg r0 p. main_start sample_rt sample_build sample_host sample_resolve sample_args = Runs exec v cfg r0 p \<and>
     proc_reach p r0 {} (proc_init r0) \<and> int (length (live (pServer (proc_init r0)))) \<le> 5"
proof -
  obtain exec v cfg r p where m: "main_start sample_rt sample_build sample_host sample_resolve sample_args = Runs exec v cfg r p"
    by (rule sample_main_runs)
  with command_line_reaches_service [OF m proc_reach.start _ sample_args_parsed] proc_reach.start show ?thesis by fastforce
qed

end
