(* ===== verification/Spec2Isabelle.thy ===== *)
theory Spec2Isabelle
  imports Program
begin

text \<open>
  \<^bold>\<open>redis-sentinel-proxy\<close>: a TCP proxy in front of a group of Redis nodes that Sentinel
  manages. This development models the Go program under \<open>src/\<close> and proves what makes it
  correct. It reads in the order of the imports; this theory only ties it together.

  \<^bold>\<open>The program.\<close> \<open>main.go\<close> loads a configuration (\<open>pkg/config\<close>: flags, environment, YAML
  file, defaults), creates a resolver (\<open>pkg/master_resolver\<close>) and a proxy (\<open>pkg/proxy\<close>) that
  uses it. The resolver asks sentinel for the master and, for the replica endpoint, the
  replicas, verifies every node with the \<open>ROLE\<close> command and keeps the addresses up to date
  in a loop. The proxy accepts clients on up to two endpoints, picks a backend from the
  resolver, dials it and pipes bytes; in router mode (\<open>pkg/proxy/routing.go\<close>) it reads the
  Redis protocol instead (\<open>resp.go\<close>) and sends each command to the master or to a replica as
  the table in \<open>pkg/router\<close> says. When a backend cannot be reached the proxy has the
  resolver refresh the addresses and tries once more.

  \<^bold>\<open>The theories.\<close>
  \<^item> \<open>Prelude\<close>: byte strings, \<open>int64\<close>, results with errors, shared list lemmas.
  \<^item> \<open>Golib\<close>, \<open>Gonet\<close>: what the source uses of Go's \<open>strings\<close>, \<open>strconv\<close>, \<open>bufio\<close>, \<open>io\<close> and
    \<open>net\<close>. A peer's stream is a record \<open>reader\<close> (the bytes it will send and the error at
    their end), a connection's write side a record \<open>conn\<close> (what was written, how much it
    still accepts), so every network failure is a value of the model.
  \<^item> \<open>Router\<close>: \<open>pkg/router/router.go\<close>, the command table.
  \<^item> \<open>Resp\<close>: \<open>pkg/proxy/resp.go\<close>, \<open>readLine\<close>, \<open>readCommand\<close>, \<open>copyRESP\<close>, with the grammar of
    RESP replies (\<open>resp_value\<close>) as their specification.
  \<^item> \<open>Session\<close>: \<open>pkg/proxy/routing.go\<close>, the routed session and its command loop \<open>run\<close>.
  \<^item> \<open>Config\<close>, \<open>Tls\<close>, \<open>Env\<close>, \<open>Load\<close>: \<open>pkg/config\<close>: the configuration and \<open>Merge\<close> (locale
    \<open>layered_settings\<close>, interpreted on it), the TLS setups, the environment, \<open>Load\<close>. The
    file system, the environment, the YAML decoder and the certificate parser are the
    fields of record \<open>host\<close>.
  \<^item> \<open>Flags\<close>: \<open>pkg/config/flags.go\<close>, the table of \<open>BindFlags\<close> and the function it returns, with
    the parser of package \<open>flag\<close> and \<open>strconv.ParseInt\<close> for base 0.
  \<^item> \<open>Resolver\<close>: \<open>pkg/master_resolver\<close>, one definition per method, with the fields of
    \<open>RedisMasterResolver\<close> as a record. Record \<open>world\<close> is what one resolve attempt sees of
    sentinel, of the probed nodes, of DNS and of the clock. \<open>Resolving\<close>: its properties.
  \<^item> \<open>Proxy\<close>: \<open>pkg/proxy/proxy.go\<close>, the entry of \<open>routing.go\<close> and \<open>pkg/utils\<close>. The three Go
    interfaces of the resolver are a method table (\<open>resolverI\<close>); locale \<open>address_provider\<close>
    is the contract the proxy relies on, interpreted on the resolver's methods as
    \<open>sentinel_resolver\<close>. \<open>Proxying\<close>: the start of \<open>runProxying\<close> and the properties.
  \<^item> \<open>Lifecycle\<close>: \<open>runProxying\<close> with its goroutines. Record \<open>process\<close> holds the shared
    resolver, the sessions, and a program counter for the update loop (\<open>loop_pc\<close>), for \<open>Run\<close>
    (\<open>run_pc\<close>) and for the accept loop and the closer of every endpoint (\<open>lane\<close>); \<open>proc_step\<close>
    is one step of one of them, chosen by a label, so a run is any sequence of labels.
    Locale \<open>progress\<close> is the proof rule for liveness, interpreted on the process as \<open>shutdown\<close>.
  \<^item> \<open>Program\<close>: \<open>main\<close> with the version (\<open>version.go\<close>), the build time and the exit statuses, and
    the YAML hooks of durations (\<open>config.go\<close>, \<open>pkg/types\<close>); the properties that reach from
    the command line to the running process.

  \<^bold>\<open>What is shown.\<close> For the protocol: \<open>copyRESP\<close> relays exactly the replies of the grammar
  and \<open>readCommand\<close> reads back every encoded command, within the limits. For a routed
  session: with healthy peers every command reaches its backends and every reply the client,
  in order; whatever the peers do, the replica gets nothing but reads and the master its
  commands without a gap. For the configuration: precedence of the sources, no nil
  dereference, valid and consistent results; the one field that no source but the first can set
  is named. For the resolver: one attempt is characterised
  exactly; whatever the interleaving, served addresses are verified; the loops spend their
  budget as stated, and end; picks are round robin; refreshes are throttled, each anew. For the proxy:
  clients are connected to verified nodes only, survive a failover of the master, are
  authenticated before a backend is dialled, never exceed the limit, and a piped session hands on
  what the idle-timeout readers around its connections deliver (\<open>pipeReader\<close>, \<open>delivered\<close>). For
  the command line: documented flags with texts of their documented kinds are read back into
  their settings and win over every other source, and which settings a flag can affect at all
  is stated. For the process: its
  start never panics, what the command line says is in effect in every reachable state, it
  serves until there is a reason to stop, and then, in every fair run, it ends with its
  listeners closed and a status that tells why; in every run, whatever else is interleaved, the
  update loop gives up exactly with one hard failure more than the retries since its last
  success. (Its goroutine and the function that \<open>Resolver\<close> proves things about agree when the
  goroutine runs by itself: \<open>loop_goroutine_refines\<close>.) Some theorems state behaviour that differs
  from what the comments or the README say: a misplaced pass-through option is ignored,
  commands with an empty name are dropped, negative retries end the update loop, router mode
  alone tracks no replicas, and a read that returns bytes together with a deadline error
  loses them.

  \<^bold>\<open>Bounds and termination.\<close> All functions are total. \<open>readLine\<close>, \<open>readCommand\<close>, \<open>copyRESP\<close>
  and \<open>run\<close> terminate because each round consumes input. The loops of the resolver run over
  the list of events that wake them, so \<open>Waiting\<close> stands for a loop that is still blocked;
  that they return when they should is proved. Fairness of a run of the process (\<open>fair_run\<close>,
  \<open>turn_of\<close>) is what the Go scheduler and its random choice in \<open>select\<close> give: a goroutine that
  can go on does so at some time, and a \<open>select\<close> whose context stays done takes that branch at
  some time; clients, timers and signals are under no obligation. Integers are at their width where it matters:
  \<open>int64\<close> counters wrap, the round robin index is a 64-bit word.

  \<^bold>\<open>Not modelled.\<close> The Redis client library, YAML, TLS, TCP and DNS themselves are
  parameters, as is the YAML encoder of \<open>String\<close>. The counters of failures in the resolver's loops
  are unbounded integers. A resolve attempt is atomic and ends (the client has timeouts of a second), so
  two attempts that overlap in time appear one after the other. The two pipes of a session,
  whose connections share no bytes, run one after the other, and the activity clock that their
  idle wrappers share appears in each round of a read as the time that the clock holds then
  (\<open>rrActivity\<close>); within \<open>process\<close> a session is its slot and its
  calls of the resolver. Log lines of the proxy and of \<open>main\<close> are left out, as are the usage
  texts of the flags. The order in which \<open>slices.SortFunc\<close> leaves entries with equal
  addresses is taken to be stable, which affects display names only.
\<close>

end
